theory Spec2Isabelle
  imports Complex_Main "HOL-Library.Word" "HOL-Library.Log_Nat"
begin

unbundle bit_operations_syntax

section \<open>JavaScript values\<close>

text \<open>
  A JavaScript string is a sequence of 16-bit code units. The literals of the program
  are ASCII; \<open>js\<close> turns an ASCII literal into code units.
\<close>

type_synonym jsstring = "16 word list"

definition codeUnit :: "char \<Rightarrow> 16 word" where
  "codeUnit c = of_nat (of_char c)"

definition js :: "string \<Rightarrow> jsstring" where
  "js s = map codeUnit s"

text \<open>
  Truthiness of a \<open>string | null\<close> value, as the conditions \<open>x ? a : b\<close>,
  \<open>x || y\<close> and \<open>x && y\<close> of the program test it: \<open>null\<close> and the empty
  string are falsy.
\<close>

fun truthy :: "jsstring option \<Rightarrow> bool" where
  "truthy None = False"
| "truthy (Some s) = (s \<noteq> [])"

text \<open>
  Numbers. The hash loop only ever holds integers below \<open>2 ^ 53\<close> in magnitude
  (lemma \<open>hash_step_exact\<close> below), which a double holds exactly, so the loop's numbers
  are modelled as \<open>int\<close>. The bitwise operators first convert their operands to
  32-bit integers (\<open>ToInt32\<close>, \<open>ToUint32\<close>), and \<open>+\<close> is the exact sum.
\<close>

definition ToInt32 :: "int \<Rightarrow> int" where
  "ToInt32 x = signed_take_bit 31 x"

definition ToUint32 :: "int \<Rightarrow> int" where
  "ToUint32 x = take_bit 32 x"

text \<open>\<open>x << n\<close>: the left operand as int32, the shift count modulo 32, the result as int32.\<close>

definition js_shl :: "int \<Rightarrow> int \<Rightarrow> int" where
  "js_shl x n = ToInt32 (push_bit (nat (ToUint32 n mod 32)) (ToInt32 x))"

text \<open>\<open>x ^ y\<close>: both operands as int32; the result is an int32.\<close>

definition js_xor :: "int \<Rightarrow> int \<Rightarrow> int" where
  "js_xor x y = ToInt32 x XOR ToInt32 y"

text \<open>\<open>x >>> n\<close>: the left operand as uint32, the result is a uint32.\<close>

definition js_ushr :: "int \<Rightarrow> int \<Rightarrow> int" where
  "js_ushr x n = drop_bit (nat (ToUint32 n mod 32)) (ToUint32 x)"

subsection \<open>String built-ins used by the stamp\<close>

text \<open>
  \<open>Number.prototype.toString(36)\<close> on a non-negative integer: the digits
  \<open>0..9a..z\<close>, most significant first, no leading zero (\<open>"0"\<close> for zero).
\<close>

definition digit36 :: "nat \<Rightarrow> 16 word" where
  "digit36 d = (if d < 10 then of_nat (48 + d) else of_nat (87 + d))"

fun toString36 :: "nat \<Rightarrow> jsstring" where
  "toString36 n = (if n < 36 then [digit36 n] else toString36 (n div 36) @ [digit36 (n mod 36)])"

declare toString36.simps [simp del]

text \<open>
  \<open>toUpperCase\<close>, on the code units it meets here: \<open>toString(36)\<close> yields only
  \<open>0..9a..z\<close>, and the letters \<open>a..z\<close> map to \<open>A..Z\<close>; the model leaves every
  other code unit as it is.
\<close>

definition upperUnit :: "16 word \<Rightarrow> 16 word" where
  "upperUnit c = (if 97 \<le> c \<and> c \<le> 122 then c - 32 else c)"

definition toUpperCase :: "jsstring \<Rightarrow> jsstring" where
  "toUpperCase s = map upperUnit s"

text \<open>\<open>s.padStart(n, f)\<close> for a one-unit filler \<open>f\<close>.\<close>

definition padStart :: "nat \<Rightarrow> 16 word \<Rightarrow> jsstring \<Rightarrow> jsstring" where
  "padStart n f s = (if n \<le> length s then s else replicate (n - length s) f @ s)"

text \<open>\<open>s.slice(-k)\<close>: from \<open>max (length - k) 0\<close> to the end.\<close>

definition sliceLast :: "nat \<Rightarrow> jsstring \<Rightarrow> jsstring" where
  "sliceLast k s = drop (length s - k) s"

section \<open>The version stamp (\<open>computeVersionHash\<close>)\<close>

text \<open>
  \<open>for (let i = 0; i < json.length; i++) hash = ((hash << 5) + hash) ^ json.charCodeAt(i)\<close>:
  one step per code unit, in order.
\<close>

definition hashStep :: "int \<Rightarrow> 16 word \<Rightarrow> int" where
  "hashStep hash c = js_xor (js_shl hash 5 + hash) (uint c)"

fun hashLoop :: "jsstring \<Rightarrow> int \<Rightarrow> int" where
  "hashLoop [] hash = hash"
| "hashLoop (c # cs) hash = hashLoop cs (hashStep hash c)"

text \<open>The value of \<open>hash\<close> after \<open>hash = hash >>> 0\<close>.\<close>

definition hash32 :: "jsstring \<Rightarrow> int" where
  "hash32 json = js_ushr (hashLoop json 5381) 0"

text \<open>
  \<open>JSON.stringify\<close> is the platform's serializer; it is a parameter of the model.
\<close>

definition computeVersionHash :: "('d \<Rightarrow> jsstring) \<Rightarrow> 'd \<Rightarrow> jsstring" where
  "computeVersionHash JSON_stringify data =
     (let json = JSON_stringify data;
          hash = hash32 json;
          base36 = toUpperCase (toString36 (nat hash))
      in sliceLast 6 (padStart 6 48 base36))"


subsection \<open>The stamp as the specification words it\<close>

text \<open>
  The specification's procedure, written independently of the program's number
  semantics: a 32-bit accumulator that wraps around at every step, read as unsigned at
  the end.
\<close>

definition spec_step :: "32 word \<Rightarrow> 16 word \<Rightarrow> 32 word" where
  "spec_step acc c = (push_bit 5 acc + acc) XOR ucast c"

definition spec_version_stamp :: "jsstring \<Rightarrow> jsstring" where
  "spec_version_stamp json =
     (let acc = foldl spec_step 5381 json;
          u = unat acc;
          digits = toUpperCase (toString36 u);
          padded = padStart 6 48 digits
      in sliceLast 6 padded)"

text \<open>The uppercase base-36 alphabet.\<close>

definition base36Alphabet :: "16 word set" where
  "base36Alphabet = set (js ''0123456789ABCDEFGHIJKLMNOPQRSTUVWXYZ'')"

text \<open>The \<open>k\<close> least significant base-36 digits of \<open>n\<close>, most significant first.\<close>

fun fixed36 :: "nat \<Rightarrow> nat \<Rightarrow> jsstring" where
  "fixed36 0 n = []"
| "fixed36 (Suc k) n = fixed36 k (n div 36) @ [digit36 (n mod 36)]"

subsection \<open>The loop's numbers\<close>

lemma toString36_small: "n < 36 \<Longrightarrow> toString36 n = [digit36 n]"
  by (simp add: toString36.simps)

lemma toString36_large:
  "36 \<le> n \<Longrightarrow> toString36 n = toString36 (n div 36) @ [digit36 (n mod 36)]"
  by (subst toString36.simps) simp

lemmas stamp_eval =
  computeVersionHash_def toString36_small toString36_large digit36_def toUpperCase_def
  upperUnit_def padStart_def sliceLast_def hash32_def js_def codeUnit_def hashStep_def js_xor_def
  js_shl_def js_ushr_def ToInt32_def ToUint32_def

lemma word32_of_ToInt32: "(word_of_int (signed_take_bit 31 x) :: 32 word) = word_of_int x"
  by (simp add: word_of_int_eq_iff take_bit_signed_take_bit)

lemma shift_count: "nat (ToUint32 5 mod 32) = 5" "nat (ToUint32 0 mod 32) = 0"
  by (simp_all add: ToUint32_def)

lemma hashStep_word:
  "(word_of_int (hashStep h c) :: 32 word) = spec_step (word_of_int h) c"
  unfolding hashStep_def js_xor_def js_shl_def ToInt32_def shift_count spec_step_def
  by (simp add: of_int_xor_eq word32_of_ToInt32) (metis push_bit_of_int word32_of_ToInt32)

lemma hashLoop_word:
  "(word_of_int (hashLoop cs h) :: 32 word) = foldl spec_step (word_of_int h) cs"
  by (induction cs arbitrary: h) (simp_all add: hashStep_word)

lemma hash32_word: "hash32 json = uint (foldl spec_step 5381 json)"
proof -
  have "hash32 json = take_bit 32 (hashLoop json 5381)"
    by (simp add: hash32_def js_ushr_def shift_count ToUint32_def)
  also have "\<dots> = uint (word_of_int (hashLoop json 5381) :: 32 word)"
    by (simp add: uint_word_of_int_eq)
  finally show ?thesis by (simp add: hashLoop_word)
qed

lemma hash32_range: "0 \<le> hash32 json" "hash32 json < 4294967296"
  using uint_lt2p [of "foldl spec_step 5381 json"] by (simp_all add: hash32_word)

text \<open>
  Every number the loop holds is an integer far below \<open>2 ^ 53\<close> in magnitude, so the
  doubles of the program hold it exactly: the operands of \<open>+\<close> are two int32 values.
\<close>

lemma ToInt32_range: "- 2147483648 \<le> ToInt32 x" "ToInt32 x < 2147483648"
  unfolding ToInt32_def
  using signed_take_bit_int_greater_eq_minus_exp [of 31 x] signed_take_bit_int_less_exp [of 31 x]
  by simp_all

lemma signed_take_bit_xor_int:
  "signed_take_bit n (x::int) XOR signed_take_bit n y = signed_take_bit n (x XOR y)"
  by (rule bit_eqI) (auto simp add: bit_signed_take_bit_iff bit_xor_iff)

lemma js_xor_int32: "js_xor x y = ToInt32 (x XOR y)"
  by (simp add: js_xor_def ToInt32_def signed_take_bit_xor_int)

lemma hashStep_range: "- 2147483648 \<le> hashStep h c" "hashStep h c < 2147483648"
  by (simp_all add: hashStep_def js_xor_int32 ToInt32_range)

lemma hash_step_exact:
  assumes "- 2147483648 \<le> h" "h < 2147483648"
  shows "\<bar>js_shl h 5 + h\<bar> < 2 ^ 53"
proof -
  have "- 2147483648 \<le> js_shl h 5" "js_shl h 5 < 2147483648"
    by (simp_all add: js_shl_def ToInt32_range)
  with assms show ?thesis by simp
qed

lemma hashLoop_range:
  "- 2147483648 \<le> h \<Longrightarrow> h < 2147483648 \<Longrightarrow>
   - 2147483648 \<le> hashLoop cs h \<and> hashLoop cs h < 2147483648"
  by (induction cs arbitrary: h) (simp_all add: hashStep_range)

subsection \<open>The digits of the stamp\<close>

lemma base36Alphabet_upt: "base36Alphabet = set (map of_nat ([48..<58] @ [65..<91]))"
  by (simp add: base36Alphabet_def js_def codeUnit_def upt_rec_numeral)

lemma base36Alphabet_ranges:
  "base36Alphabet = {c. 48 \<le> c \<and> c \<le> 57 \<or> 65 \<le> c \<and> c \<le> 90}"
proof
  show "{c. 48 \<le> c \<and> c \<le> 57 \<or> 65 \<le> c \<and> c \<le> 90} \<subseteq> base36Alphabet"
  proof
    fix c :: "16 word"
    assume "c \<in> {c. 48 \<le> c \<and> c \<le> 57 \<or> 65 \<le> c \<and> c \<le> 90}"
    then have "48 \<le> unat c \<and> unat c \<le> 57 \<or> 65 \<le> unat c \<and> unat c \<le> 90"
      by (simp add: word_le_nat_alt)
    then have "unat c \<in> set ([48..<58] @ [65..<91])"
      by (simp only: set_append set_upt Un_iff atLeastLessThan_iff) arith
    then have "of_nat (unat c) \<in> (of_nat ` set ([48..<58] @ [65..<91]) :: 16 word set)"
      by (rule imageI)
    then show "c \<in> base36Alphabet"
      unfolding base36Alphabet_upt by simp
  qed
  show "base36Alphabet \<subseteq> {c. 48 \<le> c \<and> c \<le> 57 \<or> 65 \<le> c \<and> c \<le> 90}"
    by (simp add: base36Alphabet_def js_def codeUnit_def)
qed

lemma digit36_low: "d < 10 \<Longrightarrow> unat (digit36 d) = 48 + d"
  by (simp add: digit36_def unat_of_nat del: of_nat_add)

lemma digit36_high: "10 \<le> d \<Longrightarrow> d < 36 \<Longrightarrow> unat (digit36 d) = 87 + d"
  by (simp add: digit36_def unat_of_nat del: of_nat_add)

lemma upper_digit36: "d < 36 \<Longrightarrow> upperUnit (digit36 d) \<in> base36Alphabet"
proof (cases "d < 10")
  case True
  then show ?thesis using digit36_low [of d]
    by (simp add: upperUnit_def base36Alphabet_ranges word_le_nat_alt)
next
  case False
  assume "d < 36"
  with False have u: "unat (digit36 d) = 87 + d" by (simp add: digit36_high)
  then have "97 \<le> digit36 d" "digit36 d \<le> 122"
    using \<open>d < 36\<close> False by (simp_all add: word_le_nat_alt)
  moreover have "unat (digit36 d - 32) = 55 + d"
    using u by (simp add: unat_sub word_le_nat_alt)
  ultimately show ?thesis using \<open>d < 36\<close> False
    by (simp add: upperUnit_def base36Alphabet_ranges word_le_nat_alt)
qed

lemma upperUnit_zero: "upperUnit 48 = 48"
  by (simp add: upperUnit_def)

lemma padStart_snoc: "padStart (Suc k) f (xs @ [d]) = padStart k f xs @ [d]"
  by (simp add: padStart_def Suc_diff_le)

lemma sliceLast_snoc: "sliceLast (Suc k) (ys @ [d]) = sliceLast k ys @ [d]"
  by (simp add: sliceLast_def)

lemma fixed36_zero: "fixed36 k 0 = replicate k 48"
  by (induction k) (simp_all add: digit36_def replicate_append_same)

lemma length_fixed36: "length (fixed36 k n) = k"
  by (induction k arbitrary: n) simp_all

text \<open>Padding to \<open>k\<close> and keeping the last \<open>k\<close> units leaves the \<open>k\<close> low digits.\<close>

lemma slice_pad_toString36: "sliceLast k (padStart k 48 (toString36 n)) = fixed36 k n"
proof (induction k arbitrary: n)
  case 0
  show ?case by (simp add: sliceLast_def)
next
  case (Suc k)
  show ?case
  proof (cases "n < 36")
    case True
    have "sliceLast (Suc k) (padStart (Suc k) 48 ([] @ [digit36 n]))
        = sliceLast k (padStart k 48 []) @ [digit36 n]"
      by (simp only: padStart_snoc sliceLast_snoc)
    moreover have "sliceLast k (padStart k 48 []) = replicate k 48"
      by (simp add: padStart_def sliceLast_def)
    ultimately show ?thesis using True
      by (simp add: toString36_small fixed36_zero)
  next
    case False
    then have "toString36 n = toString36 (n div 36) @ [digit36 (n mod 36)]"
      by (simp add: toString36_large)
    then show ?thesis
      by (simp add: padStart_snoc sliceLast_snoc Suc.IH)
  qed
qed

lemma padStart_map: "u f = f \<Longrightarrow> padStart k f (map u xs) = map u (padStart k f xs)"
  by (simp add: padStart_def)

lemma sliceLast_map: "sliceLast k (map u xs) = map u (sliceLast k xs)"
  by (simp add: sliceLast_def drop_map)

lemma stamp_fixed36:
  "computeVersionHash S d = map upperUnit (fixed36 6 (nat (hash32 (S d))))"
  by (simp add: computeVersionHash_def toUpperCase_def padStart_map upperUnit_zero
      sliceLast_map slice_pad_toString36)

lemma fixed36_mod: "fixed36 k (n mod 36 ^ k) = fixed36 k n"
proof (induction k arbitrary: n)
  case 0
  show ?case by simp
next
  case (Suc k)
  have split: "n mod 36 ^ Suc k = 36 * (n div 36 mod 36 ^ k) + n mod 36"
    by (simp add: mod_mult2_eq)
  have "n mod 36 ^ Suc k div 36 = (n div 36) mod 36 ^ k"
    unfolding split by simp
  moreover have "n mod 36 ^ Suc k mod 36 = n mod 36"
    unfolding split by simp
  ultimately show ?case by (simp add: Suc.IH)
qed

lemma fixed36_upper: "set (map upperUnit (fixed36 k n)) \<subseteq> base36Alphabet"
  by (induction k arbitrary: n) (simp_all add: upper_digit36)

subsection \<open>Properties of the stamp\<close>

text \<open>
  C1. For every document, the stamp the program computes is the stamp of the
  specification's procedure on the serialized document: start at 5381; for each code
  unit in order, \<open>((acc << 5) + acc) XOR unit\<close> with 32-bit wrap-around; read the
  accumulator as an unsigned 32-bit integer; write it in base 36, uppercase, padded on
  the left with \<open>0\<close> to at least 6 units, and keep the last 6.
\<close>

theorem computeVersionHash_refines_spec:
  "computeVersionHash JSON_stringify d = spec_version_stamp (JSON_stringify d)"
proof -
  have "nat (hash32 (JSON_stringify d)) = unat (foldl spec_step 5381 (JSON_stringify d))"
    by (simp add: hash32_word)
  then show ?thesis
    by (simp add: computeVersionHash_def spec_version_stamp_def Let_def)
qed

text \<open>
  C8. For every document, the stamp has exactly 6 code units, each one of
  \<open>0..9\<close>, \<open>A..Z\<close>.
\<close>

theorem stamp_six_uppercase_base36:
  "length (computeVersionHash JSON_stringify d) = 6 \<and>
   set (computeVersionHash JSON_stringify d) \<subseteq> base36Alphabet"
proof
  show "length (computeVersionHash JSON_stringify d) = 6"
    by (simp add: stamp_fixed36 length_fixed36)
  show "set (computeVersionHash JSON_stringify d) \<subseteq> base36Alphabet"
    unfolding stamp_fixed36 by (rule fixed36_upper)
qed

text \<open>
  C9. The stamp depends only on the unsigned 32-bit hash modulo \<open>36 ^ 6\<close>: two
  documents whose hashes are congruent modulo \<open>36 ^ 6 = 2176782336\<close> get the same
  stamp, and \<open>36 ^ 6\<close> is below \<open>2 ^ 32\<close>, so the stamp distinguishes fewer values
  than the accumulator holds.
\<close>

theorem stamp_depends_on_hash_mod:
  assumes "nat (hash32 (JSON_stringify d1)) mod 36 ^ 6 = nat (hash32 (JSON_stringify d2)) mod 36 ^ 6"
  shows "(36::nat) ^ 6 = 2176782336 \<and> (36::nat) ^ 6 < 2 ^ 32 \<and>
    computeVersionHash JSON_stringify d1 = computeVersionHash JSON_stringify d2"
proof -
  have "fixed36 6 (nat (hash32 (JSON_stringify d1))) = fixed36 6 (nat (hash32 (JSON_stringify d2)))"
    using assms fixed36_mod [of 6 "nat (hash32 (JSON_stringify d1))"]
      fixed36_mod [of 6 "nat (hash32 (JSON_stringify d2))"]
    by simp
  then show ?thesis by (simp add: stamp_fixed36)
qed

text \<open>
  Two documents (serialized by the identity here) whose 32-bit hashes differ by
  exactly \<open>36 ^ 6\<close>: both get the stamp \<open>AANN5A\<close>.
\<close>

theorem stamp_depends_on_hash_mod_witness:
  "hash32 (js ''{\"name\":\"DSDOBD93\"}'') = 622561006 \<and>
   hash32 (js ''{\"name\":\"RRAO4rVN\"}'') = 2799343342 \<and>
   computeVersionHash (\<lambda>x. x) (js ''{\"name\":\"DSDOBD93\"}'') = js ''AANN5A'' \<and>
   computeVersionHash (\<lambda>x. x) (js ''{\"name\":\"RRAO4rVN\"}'') = js ''AANN5A''"
proof -
  have h1: "hash32 (js ''{\"name\":\"DSDOBD93\"}'') = 622561006"
    by (simp add: stamp_eval)
  have h2: "hash32 (js ''{\"name\":\"RRAO4rVN\"}'') = 2799343342"
    by (simp add: stamp_eval)
  have s1: "computeVersionHash (\<lambda>x. x) (js ''{\"name\":\"DSDOBD93\"}'') = js ''AANN5A''"
    by (simp add: stamp_eval)
  have "nat (hash32 (js ''{\"name\":\"DSDOBD93\"}'')) mod 36 ^ 6
      = nat (hash32 (js ''{\"name\":\"RRAO4rVN\"}'')) mod 36 ^ 6"
    by (simp add: h1 h2)
  from stamp_depends_on_hash_mod [of "\<lambda>x. x", OF this] s1 h1 h2
  show ?thesis by simp
qed


section \<open>Edition and version from the page path\<close>

subsection \<open>\<open>decodeURIComponent\<close>\<close>

text \<open>
  The built-in of the platform, as ECMAScript defines it: a code unit other than
  \<open>%\<close> is copied; \<open>%XY\<close> with two hexadecimal digits is one octet; an octet below
  128 is that code unit; an octet with 2, 3 or 4 leading one bits opens a UTF-8 sequence
  of that many octets, each written \<open>%XY\<close>, which must be the well-formed encoding of
  a code point (no overlong form, no surrogate, at most U+10FFFF) and is appended as
  UTF-16. Everything else throws \<open>URIError\<close>.
\<close>

datatype js_error = URIError | TypeError | HttpError nat | SyntaxError | OtherError

text \<open>
  A hexadecimal digit; the octet of an escape \<open>%XY\<close> at the head of a string; the
  octets of \<open>n\<close> escapes in a row.
\<close>

fun hexVal :: "16 word \<Rightarrow> nat option" where
  "hexVal c =
     (if codeUnit CHR ''0'' \<le> c \<and> c \<le> codeUnit CHR ''9'' then Some (unat c - 48)
      else if codeUnit CHR ''A'' \<le> c \<and> c \<le> codeUnit CHR ''F'' then Some (unat c - 55)
      else if codeUnit CHR ''a'' \<le> c \<and> c \<le> codeUnit CHR ''f'' then Some (unat c - 87)
      else None)"

fun hexOctet :: "jsstring \<Rightarrow> nat option" where
  "hexOctet (p # h # l # rest) =
     (if p = codeUnit CHR ''%'' then
        (case (hexVal h, hexVal l) of (Some a, Some b) \<Rightarrow> Some (16 * a + b) | _ \<Rightarrow> None)
      else None)"
| "hexOctet _ = None"

fun continuation :: "nat \<Rightarrow> jsstring \<Rightarrow> nat list option" where
  "continuation 0 s = Some []"
| "continuation (Suc n) s =
     (case hexOctet s of
        None \<Rightarrow> None
      | Some b \<Rightarrow> map_option ((#) b) (continuation n (drop 3 s)))"

text \<open>
  The number of leading one bits of an octet (5 stands for 5 or more); a continuation
  octet \<open>10xxxxxx\<close>; the code point of a well-formed UTF-8 sequence; its UTF-16 code
  units.
\<close>

definition leadingOnes :: "nat \<Rightarrow> nat" where
  "leadingOnes B =
     (if B < 128 then 0 else if B < 192 then 1 else if B < 224 then 2
      else if B < 240 then 3 else if B < 248 then 4 else 5)"

definition isContinuation :: "nat \<Rightarrow> bool" where
  "isContinuation b = (128 \<le> b \<and> b < 192)"

fun codePoint :: "nat list \<Rightarrow> nat option" where
  "codePoint [b0, b1] =
     (let V = (b0 - 192) * 64 + (b1 - 128)
      in if isContinuation b1 \<and> 128 \<le> V then Some V else None)"
| "codePoint [b0, b1, b2] =
     (let V = (b0 - 224) * 4096 + (b1 - 128) * 64 + (b2 - 128)
      in if isContinuation b1 \<and> isContinuation b2 \<and> 2048 \<le> V \<and> \<not> (55296 \<le> V \<and> V \<le> 57343)
         then Some V else None)"
| "codePoint [b0, b1, b2, b3] =
     (let V = (b0 - 240) * 262144 + (b1 - 128) * 4096 + (b2 - 128) * 64 + (b3 - 128)
      in if isContinuation b1 \<and> isContinuation b2 \<and> isContinuation b3 \<and> 65536 \<le> V \<and> V \<le> 1114111
         then Some V else None)"
| "codePoint _ = None"

definition UTF16EncodeCodePoint :: "nat \<Rightarrow> jsstring" where
  "UTF16EncodeCodePoint V =
     (if V < 65536 then [of_nat V]
      else [of_nat ((V - 65536) div 1024 + 55296), of_nat ((V - 65536) mod 1024 + 56320)])"

fun decodeURIComponent :: "jsstring \<Rightarrow> js_error + jsstring" where
  "decodeURIComponent [] = Inr []"
| "decodeURIComponent (c # cs) =
     (if c \<noteq> codeUnit CHR ''%'' then
        (case decodeURIComponent cs of Inl e \<Rightarrow> Inl e | Inr r \<Rightarrow> Inr (c # r))
      else
        (case hexOctet (c # cs) of
           None \<Rightarrow> Inl URIError
         | Some B \<Rightarrow>
             if leadingOnes B = 0 then
               (case decodeURIComponent (drop 2 cs) of
                  Inl e \<Rightarrow> Inl e
                | Inr r \<Rightarrow> Inr (of_nat B # r))
             else if leadingOnes B = 1 \<or> 4 < leadingOnes B then Inl URIError
             else
               (case continuation (leadingOnes B - 1) (drop 2 cs) of
                  None \<Rightarrow> Inl URIError
                | Some bs \<Rightarrow>
                    (case codePoint (B # bs) of
                       None \<Rightarrow> Inl URIError
                     | Some V \<Rightarrow>
                         (case decodeURIComponent (drop (2 + 3 * (leadingOnes B - 1)) cs) of
                            Inl e \<Rightarrow> Inl e
                          | Inr r \<Rightarrow> Inr (UTF16EncodeCodePoint V @ r))))))"

lemmas uri_eval = codeUnit_def js_def leadingOnes_def isContinuation_def UTF16EncodeCodePoint_def

subsection \<open>The two regular expressions\<close>

text \<open>
  \<open>/(?:^|\/)e\/([^\/]+)(?:\/(?:v\/([A-Za-z0-9]{4,10}))?)?/\<close> and
  \<open>/(?:^|\/)v\/([A-Za-z0-9]{4,10})/\<close>, as \<open>String.prototype.match\<close> runs them:
  the start positions are tried from left to right and the first that matches wins;
  at a position, \<open>(?:^|\/)\<close> is the empty match at the start of the path or one
  \<open>/\<close>; \<open>[^\/]+\<close> and \<open>{4,10}\<close> are greedy, and since whatever follows
  them can match the empty string, the greedy choice stands: group 1 is the whole run of
  code units up to the next \<open>/\<close>, the version token is the first ten units of an
  alphanumeric run of at least four.
\<close>

text \<open>The classes \<open>[A-Za-z0-9]\<close> and \<open>[^\/]\<close>.\<close>

definition isAlnum :: "16 word \<Rightarrow> bool" where
  "isAlnum c =
     (codeUnit CHR ''A'' \<le> c \<and> c \<le> codeUnit CHR ''Z'' \<or>
      codeUnit CHR ''a'' \<le> c \<and> c \<le> codeUnit CHR ''z'' \<or>
      codeUnit CHR ''0'' \<le> c \<and> c \<le> codeUnit CHR ''9'')"

definition notSlash :: "16 word \<Rightarrow> bool" where
  "notSlash c = (c \<noteq> codeUnit CHR ''/'')"

text \<open>\<open>([A-Za-z0-9]{4,10})\<close> at the head of \<open>s\<close>: the captured token.\<close>

definition versionToken :: "jsstring \<Rightarrow> jsstring option" where
  "versionToken s =
     (let run = takeWhile isAlnum s
      in if 4 \<le> length run then Some (take 10 run) else None)"

text \<open>
  \<open>(?:\/(?:v\/([A-Za-z0-9]{4,10}))?)?\<close> at the head of the string: what group 2
  captures, \<open>None\<close> when it takes no part in the match.
\<close>

fun versionSegment :: "jsstring \<Rightarrow> jsstring option" where
  "versionSegment (c1 # c2 # c3 # t) =
     (if c1 = codeUnit CHR ''/'' \<and> c2 = codeUnit CHR ''v'' \<and> c3 = codeUnit CHR ''/''
      then versionToken t else None)"
| "versionSegment _ = None"

text \<open>
  \<open>([^\/]+)\<close> and the optional tail: groups 1 and 2, or no match when the run is
  empty.
\<close>

definition editionGroups :: "jsstring \<Rightarrow> (jsstring \<times> jsstring option) option" where
  "editionGroups s =
     (let e = takeWhile notSlash s
      in if e = [] then None else Some (e, versionSegment (dropWhile notSlash s)))"

text \<open>The two patterns after their \<open>(?:^|\/)\<close>: \<open>e\/\<close> or \<open>v\/\<close>, then the groups.\<close>

fun editionBody :: "jsstring \<Rightarrow> (jsstring \<times> jsstring option) option" where
  "editionBody (c1 # c2 # rest) =
     (if c1 = codeUnit CHR ''e'' \<and> c2 = codeUnit CHR ''/'' then editionGroups rest else None)"
| "editionBody _ = None"

fun versionBody :: "jsstring \<Rightarrow> jsstring option" where
  "versionBody (c1 # c2 # rest) =
     (if c1 = codeUnit CHR ''v'' \<and> c2 = codeUnit CHR ''/'' then versionToken rest else None)"
| "versionBody _ = None"

text \<open>
  One start position: \<open>(?:^|\/)\<close> tries the empty match (at the start of the path
  only) before the \<open>/\<close>. \<open>search\<close> tries the positions from left to right.
\<close>

definition anchored :: "(jsstring \<Rightarrow> 'a option) \<Rightarrow> bool \<Rightarrow> jsstring \<Rightarrow> 'a option" where
  "anchored body atStart s =
     (case (if atStart then body s else None) of
        Some r \<Rightarrow> Some r
      | None \<Rightarrow>
          (case s of
             [] \<Rightarrow> None
           | c # t \<Rightarrow> if c = codeUnit CHR ''/'' then body t else None))"

fun search :: "(jsstring \<Rightarrow> 'a option) \<Rightarrow> bool \<Rightarrow> jsstring \<Rightarrow> 'a option" where
  "search body atStart [] = anchored body atStart []"
| "search body atStart (c # t) =
     (case anchored body atStart (c # t) of
        Some r \<Rightarrow> Some r
      | None \<Rightarrow> search body False t)"

text \<open>
  \<open>editionMatch\<close>, \<open>rootVersionMatch\<close> (tried only when the edition pattern does
  not match), \<open>initialEdition\<close> and \<open>providedVersionFromUrl\<close>, as the component
  computes them from \<open>window.location.pathname\<close>. \<open>decodeURIComponent\<close> may
  throw, and then so does the rendering.
\<close>

definition editionMatch :: "jsstring \<Rightarrow> (jsstring \<times> jsstring option) option" where
  "editionMatch path = search editionBody True path"

definition rootVersionMatch :: "jsstring \<Rightarrow> jsstring option" where
  "rootVersionMatch path =
     (if editionMatch path = None then search versionBody True path else None)"

definition initialEdition :: "jsstring \<Rightarrow> js_error + jsstring option" where
  "initialEdition path =
     (case editionMatch path of
        None \<Rightarrow> Inr None
      | Some (e, v) \<Rightarrow>
          (case decodeURIComponent e of Inl err \<Rightarrow> Inl err | Inr d \<Rightarrow> Inr (Some d)))"

definition orNull :: "jsstring option \<Rightarrow> jsstring option" where
  "orNull v = (if truthy v then v else None)"

definition providedVersionFromUrl :: "jsstring \<Rightarrow> jsstring option" where
  "providedVersionFromUrl path =
     (case editionMatch path of
        Some (e, v) \<Rightarrow> orNull v
      | None \<Rightarrow> rootVersionMatch path)"

lemmas parse_eval =
  uri_eval isAlnum_def notSlash_def versionToken_def editionGroups_def anchored_def
  editionMatch_def rootVersionMatch_def initialEdition_def providedVersionFromUrl_def orNull_def

subsection \<open>What the patterns match, stated without the search\<close>

text \<open>
  A path matches the edition pattern when, at its start or right after a \<open>/\<close>, it
  has \<open>e/\<close> followed by at least one code unit other than \<open>/\<close> (the rest of
  the pattern is optional). It matches the root-level version pattern when, at its start
  or right after a \<open>/\<close>, it has \<open>v/\<close> followed by a token of 4 to 10
  alphanumeric code units.
\<close>

definition matchesEditionPattern :: "jsstring \<Rightarrow> bool" where
  "matchesEditionPattern path \<longleftrightarrow>
     (\<exists>pre e post. path = pre @ js ''e/'' @ e @ post \<and>
        (pre = [] \<or> last pre = codeUnit CHR ''/'') \<and> e \<noteq> [] \<and> codeUnit CHR ''/'' \<notin> set e)"

definition matchesRootVersionPattern :: "jsstring \<Rightarrow> bool" where
  "matchesRootVersionPattern path \<longleftrightarrow>
     (\<exists>pre tok post. path = pre @ js ''v/'' @ tok @ post \<and>
        (pre = [] \<or> last pre = codeUnit CHR ''/'') \<and>
        4 \<le> length tok \<and> length tok \<le> 10 \<and> (\<forall>c \<in> set tok. isAlnum c))"

definition foundAt :: "(jsstring \<Rightarrow> 'a option) \<Rightarrow> bool \<Rightarrow> jsstring \<Rightarrow> bool" where
  "foundAt body atStart s \<longleftrightarrow>
     (\<exists>pre rest. s = pre @ rest \<and> body rest \<noteq> None \<and>
        (pre = [] \<and> atStart \<or> pre \<noteq> [] \<and> last pre = codeUnit CHR ''/''))"

lemma anchored_Some:
  "anchored body b s \<noteq> None \<longleftrightarrow>
     (b \<and> body s \<noteq> None) \<or> (\<exists>t. s = codeUnit CHR ''/'' # t \<and> body t \<noteq> None)"
  by (auto simp add: anchored_def split: option.splits list.splits)

lemma foundAt_Nil: "foundAt body b [] \<longleftrightarrow> b \<and> body [] \<noteq> None"
  by (auto simp add: foundAt_def)

lemma foundAt_Cons:
  "foundAt body b (c # t) \<longleftrightarrow>
     (b \<and> body (c # t) \<noteq> None) \<or> (c = codeUnit CHR ''/'' \<and> body t \<noteq> None) \<or> foundAt body False t"
proof
  assume "foundAt body b (c # t)"
  then obtain pre rest where d: "c # t = pre @ rest" "body rest \<noteq> None"
    "pre = [] \<and> b \<or> pre \<noteq> [] \<and> last pre = codeUnit CHR ''/''"
    by (auto simp add: foundAt_def)
  show "(b \<and> body (c # t) \<noteq> None) \<or> (c = codeUnit CHR ''/'' \<and> body t \<noteq> None) \<or> foundAt body False t"
  proof (cases pre)
    case Nil
    with d show ?thesis by auto
  next
    case (Cons x pre')
    with d have t: "x = c" "t = pre' @ rest" by auto
    show ?thesis
    proof (cases "pre' = []")
      case True
      with d Cons t show ?thesis by auto
    next
      case False
      with d Cons have "last pre' = codeUnit CHR ''/''" by auto
      with False t d(2) have "foundAt body False t" unfolding foundAt_def by blast
      then show ?thesis by simp
    qed
  qed
next
  assume "(b \<and> body (c # t) \<noteq> None) \<or> (c = codeUnit CHR ''/'' \<and> body t \<noteq> None) \<or> foundAt body False t"
  then consider "b \<and> body (c # t) \<noteq> None" | "c = codeUnit CHR ''/'' \<and> body t \<noteq> None" | "foundAt body False t"
    by blast
  then show "foundAt body b (c # t)"
  proof cases
    case 1
    then have "c # t = [] @ (c # t) \<and> body (c # t) \<noteq> None \<and> b" by simp
    then show ?thesis unfolding foundAt_def by blast
  next
    case 2
    then have "c # t = [c] @ t \<and> body t \<noteq> None \<and> [c] \<noteq> [] \<and> last [c] = codeUnit CHR ''/''" by simp
    then show ?thesis unfolding foundAt_def by blast
  next
    case 3
    then obtain pre rest where d: "t = pre @ rest" "body rest \<noteq> None" "pre \<noteq> []" "last pre = codeUnit CHR ''/''"
      by (auto simp add: foundAt_def)
    then have "c # t = (c # pre) @ rest \<and> body rest \<noteq> None \<and> c # pre \<noteq> [] \<and> last (c # pre) = codeUnit CHR ''/''"
      by simp
    then show ?thesis unfolding foundAt_def by blast
  qed
qed

lemma search_foundAt: "search body b s \<noteq> None \<longleftrightarrow> foundAt body b s"
proof (induction s arbitrary: b)
  case Nil
  show ?case using anchored_Some [of body b "[]"] by (simp add: foundAt_Nil)
next
  case (Cons c t)
  have "search body b (c # t) \<noteq> None \<longleftrightarrow> anchored body b (c # t) \<noteq> None \<or> search body False t \<noteq> None"
    by (simp split: option.splits)
  then show ?case
    unfolding Cons.IH foundAt_Cons anchored_Some by auto
qed


lemma takeWhile_notSlash_decomp:
  "takeWhile notSlash r \<noteq> [] \<longleftrightarrow>
     (\<exists>e post. r = e @ post \<and> e \<noteq> [] \<and> codeUnit CHR ''/'' \<notin> set e)"
proof
  assume "takeWhile notSlash r \<noteq> []"
  moreover have "r = takeWhile notSlash r @ dropWhile notSlash r" by simp
  moreover have "codeUnit CHR ''/'' \<notin> set (takeWhile notSlash r)"
    using set_takeWhileD [of "codeUnit CHR ''/''" notSlash r] by (auto simp add: notSlash_def)
  ultimately show "\<exists>e post. r = e @ post \<and> e \<noteq> [] \<and> codeUnit CHR ''/'' \<notin> set e" by blast
next
  assume "\<exists>e post. r = e @ post \<and> e \<noteq> [] \<and> codeUnit CHR ''/'' \<notin> set e"
  then obtain e post where "r = e @ post" "e \<noteq> []" "codeUnit CHR ''/'' \<notin> set e" by blast
  then show "takeWhile notSlash r \<noteq> []"
    by (cases e) (auto simp add: notSlash_def)
qed

lemma editionBody_Some:
  "editionBody s \<noteq> None \<longleftrightarrow>
     (\<exists>e post. s = js ''e/'' @ e @ post \<and> e \<noteq> [] \<and> codeUnit CHR ''/'' \<notin> set e)"
proof (cases s rule: editionBody.cases)
  case (1 c1 c2 rest)
  have "editionBody s \<noteq> None \<longleftrightarrow> c1 = codeUnit CHR ''e'' \<and> c2 = codeUnit CHR ''/'' \<and> takeWhile notSlash rest \<noteq> []"
    by (auto simp add: 1 editionGroups_def Let_def)
  then show ?thesis
    unfolding takeWhile_notSlash_decomp by (auto simp add: 1 js_def codeUnit_def)
next
  case "2_1"
  then show ?thesis by (simp add: js_def)
next
  case "2_2"
  then show ?thesis by (simp add: js_def)
qed

lemma versionToken_Some:
  "versionToken r \<noteq> None \<longleftrightarrow>
     (\<exists>tok post. r = tok @ post \<and> 4 \<le> length tok \<and> length tok \<le> 10 \<and> (\<forall>c \<in> set tok. isAlnum c))"
proof
  assume "versionToken r \<noteq> None"
  then have len: "4 \<le> length (takeWhile isAlnum r)"
    by (simp add: versionToken_def Let_def split: if_splits)
  let ?tok = "take 10 (takeWhile isAlnum r)"
  have "r = ?tok @ (drop 10 (takeWhile isAlnum r) @ dropWhile isAlnum r)"
    by (simp flip: append_assoc)
  moreover have "4 \<le> length ?tok" "length ?tok \<le> 10" using len by simp_all
  moreover have "\<forall>c \<in> set ?tok. isAlnum c"
    by (meson in_set_takeD set_takeWhileD)
  ultimately show "\<exists>tok post. r = tok @ post \<and> 4 \<le> length tok \<and> length tok \<le> 10 \<and> (\<forall>c \<in> set tok. isAlnum c)"
    by blast
next
  assume "\<exists>tok post. r = tok @ post \<and> 4 \<le> length tok \<and> length tok \<le> 10 \<and> (\<forall>c \<in> set tok. isAlnum c)"
  then obtain tok post where d: "r = tok @ post" "4 \<le> length tok" "\<forall>c \<in> set tok. isAlnum c" by blast
  then have "takeWhile isAlnum r = tok @ takeWhile isAlnum post"
    by (simp add: takeWhile_append2)
  with d show "versionToken r \<noteq> None"
    by (simp add: versionToken_def Let_def)
qed

lemma versionBody_Some:
  "versionBody s \<noteq> None \<longleftrightarrow>
     (\<exists>tok post. s = js ''v/'' @ tok @ post \<and> 4 \<le> length tok \<and> length tok \<le> 10 \<and> (\<forall>c \<in> set tok. isAlnum c))"
proof (cases s rule: versionBody.cases)
  case (1 c1 c2 rest)
  have "versionBody s \<noteq> None \<longleftrightarrow> c1 = codeUnit CHR ''v'' \<and> c2 = codeUnit CHR ''/'' \<and> versionToken rest \<noteq> None"
    by (auto simp add: 1)
  then show ?thesis
    unfolding versionToken_Some by (auto simp add: 1 js_def codeUnit_def)
next
  case "2_1"
  then show ?thesis by (simp add: js_def)
next
  case "2_2"
  then show ?thesis by (simp add: js_def)
qed

lemma editionMatch_iff: "editionMatch path \<noteq> None \<longleftrightarrow> matchesEditionPattern path"
proof -
  have "editionMatch path \<noteq> None \<longleftrightarrow>
      (\<exists>pre rest. path = pre @ rest \<and> editionBody rest \<noteq> None \<and>
         (pre = [] \<or> last pre = codeUnit CHR ''/''))"
    unfolding editionMatch_def search_foundAt foundAt_def by auto
  also have "\<dots> \<longleftrightarrow> matchesEditionPattern path"
    unfolding editionBody_Some matchesEditionPattern_def by blast
  finally show ?thesis .
qed

lemma searchVersion_iff:
  "search versionBody True path \<noteq> None \<longleftrightarrow> matchesRootVersionPattern path"
proof -
  have "search versionBody True path \<noteq> None \<longleftrightarrow>
      (\<exists>pre rest. path = pre @ rest \<and> versionBody rest \<noteq> None \<and>
         (pre = [] \<or> last pre = codeUnit CHR ''/''))"
    unfolding search_foundAt foundAt_def by auto
  also have "\<dots> \<longleftrightarrow> matchesRootVersionPattern path"
    unfolding versionBody_Some matchesRootVersionPattern_def by blast
  finally show ?thesis .
qed

text \<open>
  C3. The path \<open>/e/acme/v/AB12CD\<close> gives edition \<open>acme\<close> (decoded) and provided
  version \<open>AB12CD\<close>; \<open>/v/XY9Z01\<close> gives no edition and provided version
  \<open>XY9Z01\<close>; and a path that matches neither the edition pattern nor the
  root-level version pattern gives no edition and no provided version.
\<close>

theorem parsePath_examples_and_no_match:
  "initialEdition (js ''/e/acme/v/AB12CD'') = Inr (Some (js ''acme'')) \<and>
   providedVersionFromUrl (js ''/e/acme/v/AB12CD'') = Some (js ''AB12CD'') \<and>
   initialEdition (js ''/v/XY9Z01'') = Inr None \<and>
   providedVersionFromUrl (js ''/v/XY9Z01'') = Some (js ''XY9Z01'') \<and>
   (\<not> matchesEditionPattern path \<and> \<not> matchesRootVersionPattern path \<longrightarrow>
      initialEdition path = Inr None \<and> providedVersionFromUrl path = None)"
proof -
  have a: "initialEdition (js ''/e/acme/v/AB12CD'') = Inr (Some (js ''acme''))"
    by (simp add: parse_eval)
  have b: "providedVersionFromUrl (js ''/e/acme/v/AB12CD'') = Some (js ''AB12CD'')"
    by (simp add: parse_eval)
  have c: "initialEdition (js ''/v/XY9Z01'') = Inr None"
    by (simp add: parse_eval)
  have d: "providedVersionFromUrl (js ''/v/XY9Z01'') = Some (js ''XY9Z01'')"
    by (simp add: parse_eval)
  have e: "initialEdition path = Inr None \<and> providedVersionFromUrl path = None"
    if "\<not> matchesEditionPattern path" "\<not> matchesRootVersionPattern path"
  proof -
    from that have "editionMatch path = None" "search versionBody True path = None"
      using editionMatch_iff searchVersion_iff by blast+
    then show ?thesis
      by (simp add: initialEdition_def providedVersionFromUrl_def rootVersionMatch_def)
  qed
  from a b c d e show ?thesis by blast
qed

theorem parsePath_witness:
  "\<not> matchesEditionPattern (js ''/about'') \<and> \<not> matchesRootVersionPattern (js ''/about'') \<and>
   initialEdition (js ''/about'') = Inr None \<and> providedVersionFromUrl (js ''/about'') = None"
proof -
  have "editionMatch (js ''/about'') = None" "search versionBody True (js ''/about'') = None"
    by (simp_all add: parse_eval)
  then have "\<not> matchesEditionPattern (js ''/about'')" "\<not> matchesRootVersionPattern (js ''/about'')"
    using editionMatch_iff searchVersion_iff by blast+
  with parsePath_examples_and_no_match [of "js ''/about''"] show ?thesis by blast
qed


subsection \<open>What the parsed values always satisfy\<close>

text \<open>
  An edition read from the path is never the empty string, a provided version has
  4 to 10 code units, and a stamp is never empty: the truthiness tests of the program
  (\<open>edition ? \<dots>\<close>, \<open>providedVersionFromUrl && versionHash\<close>) only ever
  separate \<open>null\<close> from a string.
\<close>

lemma UTF16_nonempty: "UTF16EncodeCodePoint V \<noteq> []"
  by (simp add: UTF16EncodeCodePoint_def)

lemma decodeURIComponent_nonempty:
  assumes "decodeURIComponent s = Inr r" and "s \<noteq> []"
  shows "r \<noteq> []"
proof (cases s)
  case Nil
  with assms show ?thesis by simp
next
  case (Cons c cs)
  show ?thesis
  proof (cases "c = codeUnit CHR ''%''")
    case False
    with assms Cons show ?thesis by (auto split: sum.splits)
  next
    case True
    then obtain B where B: "hexOctet (c # cs) = Some B"
      using assms Cons by (cases "hexOctet (c # cs)") auto
    show ?thesis
    proof (cases "leadingOnes B = 0")
      case z: True
      with assms Cons True B show ?thesis by (auto split: sum.splits)
    next
      case nz: False
      with assms Cons True B obtain V r' where "r = UTF16EncodeCodePoint V @ r'"
        by (auto split: sum.splits option.splits if_splits)
      then show ?thesis by (simp add: UTF16_nonempty)
    qed
  qed
qed


lemma anchored_body: "anchored body b s = Some r \<Longrightarrow> \<exists>rest. body rest = Some r"
  by (auto simp add: anchored_def split: option.splits if_splits list.splits)

lemma search_body: "search body b s = Some r \<Longrightarrow> \<exists>rest. body rest = Some r"
proof (induction s arbitrary: b)
  case Nil
  then show ?case using anchored_body by fastforce
next
  case (Cons c t)
  show ?case
  proof (cases "anchored body b (c # t)")
    case None
    with Cons.prems have "search body False t = Some r" by simp
    then show ?thesis by (rule Cons.IH)
  next
    case (Some x)
    with Cons.prems have "anchored body b (c # t) = Some r" by simp
    then show ?thesis by (rule anchored_body)
  qed
qed

lemma editionBody_groups:
  assumes "editionBody s = Some (e, g)"
  shows "\<exists>r. e = takeWhile notSlash r \<and> e \<noteq> [] \<and> g = versionSegment (dropWhile notSlash r)"
proof -
  from assms obtain r where "editionGroups r = Some (e, g)"
    by (cases s rule: editionBody.cases) (simp_all split: if_splits)
  then have "e = takeWhile notSlash r \<and> e \<noteq> [] \<and> g = versionSegment (dropWhile notSlash r)"
    unfolding editionGroups_def Let_def by (simp split: if_splits)
  then show ?thesis by blast
qed

lemma editionMatch_group1: "editionMatch path = Some (e, v) \<Longrightarrow> e \<noteq> []"
proof -
  assume "editionMatch path = Some (e, v)"
  then obtain s where "editionBody s = Some (e, v)"
    using search_body [of editionBody True path "(e, v)"] by (auto simp add: editionMatch_def)
  then show ?thesis using editionBody_groups by blast
qed

lemma initialEdition_nonempty: "initialEdition path = Inr ed \<Longrightarrow> ed \<noteq> Some []"
proof
  assume a: "initialEdition path = Inr ed" "ed = Some []"
  then obtain e v where m: "editionMatch path = Some (e, v)" "decodeURIComponent e = Inr []"
    by (auto simp add: initialEdition_def split: option.splits sum.splits)
  from m(1) have "e \<noteq> []" by (rule editionMatch_group1)
  with m(2) show False using decodeURIComponent_nonempty by blast
qed

lemma versionToken_length: "versionToken s = Some v \<Longrightarrow> 4 \<le> length v \<and> length v \<le> 10"
  by (auto simp add: versionToken_def Let_def split: if_splits)

lemma versionSegment_length: "versionSegment s = Some v \<Longrightarrow> 4 \<le> length v \<and> length v \<le> 10"
  by (cases s rule: versionSegment.cases) (auto dest: versionToken_length split: if_splits)

lemma versionBody_length: "versionBody s = Some v \<Longrightarrow> 4 \<le> length v \<and> length v \<le> 10"
  by (cases s rule: versionBody.cases) (auto dest: versionToken_length split: if_splits)

lemma providedVersion_length:
  assumes "providedVersionFromUrl path = Some v"
  shows "4 \<le> length v \<and> length v \<le> 10"
proof (cases "editionMatch path")
  case None
  with assms have "search versionBody True path = Some v"
    by (simp add: providedVersionFromUrl_def rootVersionMatch_def)
  then obtain s where "versionBody s = Some v"
    using search_body [of versionBody True path v] by auto
  then show ?thesis by (rule versionBody_length)
next
  case (Some m)
  obtain e g where m: "m = (e, g)" by (cases m)
  with Some assms have g: "g = Some v"
    by (simp add: providedVersionFromUrl_def orNull_def split: if_splits)
  from Some m obtain s where "editionBody s = Some (e, g)"
    using search_body [of editionBody True path "(e, g)"] by (auto simp add: editionMatch_def)
  then obtain r where "g = versionSegment (dropWhile notSlash r)"
    using editionBody_groups by blast
  with g show ?thesis using versionSegment_length by metis
qed

lemma providedVersion_nonempty: "providedVersionFromUrl path \<noteq> Some []"
  using providedVersion_length [of path "[]"] by auto

lemma stamp_nonempty: "computeVersionHash S d \<noteq> []"
  using length_fixed36 [of 6 "nat (hash32 (S d))"] by (auto simp add: stamp_fixed36)


section \<open>Version status\<close>

text \<open>
  The effect \<open>if (versionStatus === 'unknown' && providedVersionFromUrl && versionHash)
  setVersionStatus(providedVersionFromUrl === versionHash ? 'match' : 'mismatch')\<close>;
  nothing else sets the status. \<open>statusAfter\<close> runs the effect once for each value
  the \<open>versionHash\<close> state takes over the renders of the page; the provided version
  is the same in all of them.
\<close>

datatype version_status = Unknown | Match | Mismatch

definition versionStatusEffect ::
  "version_status \<Rightarrow> jsstring option \<Rightarrow> jsstring option \<Rightarrow> version_status" where
  "versionStatusEffect versionStatus provided versionHash =
     (if versionStatus = Unknown \<and> truthy provided \<and> truthy versionHash
      then (if provided = versionHash then Match else Mismatch)
      else versionStatus)"

fun statusAfter ::
  "version_status \<Rightarrow> jsstring option \<Rightarrow> jsstring option list \<Rightarrow> version_status" where
  "statusAfter versionStatus provided [] = versionStatus"
| "statusAfter versionStatus provided (h # hs) =
     statusAfter (versionStatusEffect versionStatus provided h) provided hs"

lemma statusAfter_settled: "s \<noteq> Unknown \<Longrightarrow> statusAfter s provided hs = s"
  by (induction hs) (simp_all add: versionStatusEffect_def)

lemma statusAfter_no_provided: "statusAfter Unknown None hs = Unknown"
  by (induction hs) (simp_all add: versionStatusEffect_def)

lemma statusAfter_no_hash: "statusAfter Unknown provided (replicate n None) = Unknown"
  by (induction n) (simp_all add: versionStatusEffect_def)

text \<open>
  C5. While no stamp exists the status is \<open>unknown\<close>; at the first render in which
  both a provided version and a stamp exist it becomes \<open>match\<close> when the two strings
  are equal and \<open>mismatch\<close> otherwise, and whatever the stamp state holds later the
  status stays as it is; with no provided version it is \<open>unknown\<close> after any number
  of renders.
\<close>

theorem versionStatus_once:
  assumes "p \<noteq> []" and "h \<noteq> []"
  shows "statusAfter Unknown (Some p) (replicate n None @ Some h # later)
           = (if p = h then Match else Mismatch) \<and>
         statusAfter Unknown None hs = Unknown"
proof -
  have "statusAfter s provided (xs @ ys) = statusAfter (statusAfter s provided xs) provided ys"
    for s provided xs ys
    by (induction xs arbitrary: s) simp_all
  then have "statusAfter Unknown (Some p) (replicate n None @ Some h # later)
      = statusAfter (versionStatusEffect Unknown (Some p) (Some h)) (Some p) later"
    by (simp add: statusAfter_no_hash)
  also have "versionStatusEffect Unknown (Some p) (Some h) = (if p = h then Match else Mismatch)"
    using assms by (simp add: versionStatusEffect_def)
  also have "statusAfter (if p = h then Match else Mismatch) (Some p) later
      = (if p = h then Match else Mismatch)"
    by (rule statusAfter_settled) simp
  finally show ?thesis by (simp add: statusAfter_no_provided)
qed


theorem versionStatus_once_witness:
  "statusAfter Unknown (Some (js ''AB12CD'')) ([None, None] @ Some (js ''AB12CD'') # [Some (js ''ZZ99ZZ''), None])
     = Match \<and>
   statusAfter Unknown (Some (js ''AB12CD'')) ([] @ Some (js ''ZZ99ZZ'') # [Some (js ''AB12CD'')])
     = Mismatch"
proof -
  have "replicate 2 (None :: jsstring option) = [None, None]" by (simp add: numeral_2_eq_2)
  then show ?thesis
    using versionStatus_once [of "js ''AB12CD''" "js ''AB12CD''" 2 "[Some (js ''ZZ99ZZ''), None]"]
      versionStatus_once [of "js ''AB12CD''" "js ''ZZ99ZZ''" 0 "[Some (js ''AB12CD'')]"]
    by (simp add: js_def codeUnit_def)
qed

section \<open>The share URL\<close>

text \<open>
  \<open>window\<close> may be absent (\<open>typeof window !== 'undefined'\<close>): the runtime origin
  is \<open>None\<close> then. \<open>encodeURIComponent\<close> is the platform's built-in, a parameter
  here; it throws \<open>URIError\<close> on a lone surrogate, and then so does the rendering
  that computes the share URL.
\<close>

definition configuredBaseOrigin :: jsstring where
  "configuredBaseOrigin = js ''https://cv.hapangama.com''"

definition runtimeOrigin :: "jsstring option \<Rightarrow> jsstring" where
  "runtimeOrigin windowOrigin =
     (case windowOrigin of Some origin \<Rightarrow> origin | None \<Rightarrow> configuredBaseOrigin)"

definition baseOrigin :: "jsstring option \<Rightarrow> jsstring" where
  "baseOrigin windowOrigin =
     (if configuredBaseOrigin \<noteq> [] then configuredBaseOrigin else runtimeOrigin windowOrigin)"

definition shareUrl ::
  "(jsstring \<Rightarrow> js_error + jsstring) \<Rightarrow> jsstring option \<Rightarrow> jsstring option \<Rightarrow> jsstring option
     \<Rightarrow> js_error + jsstring" where
  "shareUrl encodeURIComponent windowOrigin edition versionHash =
     (if truthy versionHash then
        (if truthy edition then
           (case encodeURIComponent (the edition) of
              Inl err \<Rightarrow> Inl err
            | Inr enc \<Rightarrow>
                Inr (baseOrigin windowOrigin @ js ''/e/'' @ enc @ js ''/v/'' @ the versionHash))
         else Inr (baseOrigin windowOrigin @ js ''/v/'' @ the versionHash))
      else
        (if truthy edition then
           (case encodeURIComponent (the edition) of
              Inl err \<Rightarrow> Inl err
            | Inr enc \<Rightarrow> Inr (baseOrigin windowOrigin @ js ''/e/'' @ enc))
         else Inr (baseOrigin windowOrigin)))"

text \<open>The two optional segments of the share URL, as the specification words them.\<close>

definition editionSegment :: "(jsstring \<Rightarrow> js_error + jsstring) \<Rightarrow> jsstring option \<Rightarrow> js_error + jsstring" where
  "editionSegment encodeURIComponent edition =
     (case edition of
        None \<Rightarrow> Inr []
      | Some e \<Rightarrow>
          (case encodeURIComponent e of Inl err \<Rightarrow> Inl err | Inr enc \<Rightarrow> Inr (js ''/e/'' @ enc)))"

definition versionSegmentOf :: "jsstring option \<Rightarrow> jsstring" where
  "versionSegmentOf versionHash = (case versionHash of None \<Rightarrow> [] | Some v \<Rightarrow> js ''/v/'' @ v)"

lemma baseOrigin_fixed: "baseOrigin windowOrigin = js ''https://cv.hapangama.com''"
  by (simp add: baseOrigin_def configuredBaseOrigin_def js_def)

text \<open>
  C6. For every edition state and stamp state (a string held by either is never empty),
  the share URL is \<open>https://cv.hapangama.com\<close>, whatever the runtime origin is,
  followed by \<open>/e/\<close> and the encoded edition exactly when an edition is present,
  followed by \<open>/v/\<close> and the stamp exactly when the stamp is known.
\<close>

theorem shareUrl_canonical:
  assumes "edition \<noteq> Some []" and "versionHash \<noteq> Some []"
  shows "shareUrl encodeURIComponent windowOrigin edition versionHash =
     (case editionSegment encodeURIComponent edition of
        Inl err \<Rightarrow> Inl err
      | Inr eseg \<Rightarrow> Inr (js ''https://cv.hapangama.com'' @ eseg @ versionSegmentOf versionHash))"
proof (cases edition)
  case None
  then show ?thesis using assms(2)
    by (cases versionHash) (simp_all add: shareUrl_def editionSegment_def versionSegmentOf_def baseOrigin_fixed)
next
  case (Some e)
  with assms(1) have "e \<noteq> []" by simp
  with Some assms(2) show ?thesis
    by (cases versionHash; cases "encodeURIComponent e")
      (simp_all add: shareUrl_def editionSegment_def versionSegmentOf_def baseOrigin_fixed)
qed

theorem shareUrl_canonical_witness:
  "shareUrl Inr (Some (js ''http://localhost:5173'')) (Some (js ''acme'')) (Some (js ''AB12CD''))
     = Inr (js ''https://cv.hapangama.com/e/acme/v/AB12CD'')"
  using shareUrl_canonical [of "Some (js ''acme'')" "Some (js ''AB12CD'')" Inr "Some (js ''http://localhost:5173'')"]
  by (simp add: editionSegment_def versionSegmentOf_def js_def)


section \<open>Loading the document\<close>

text \<open>
  The platform: \<open>fetch\<close> answers the \<open>n\<close>-th request of the page (counted from 0)
  for a URL either by rejecting (a network failure) or with a response, of which the
  model keeps the status and what \<open>response.json()\<close> gives: the parsed document, or
  \<open>None\<close> when the body is not JSON and \<open>json()\<close> rejects.
  \<open>history.replaceState\<close> may throw; the program ignores that.
\<close>

datatype 'd fetch_result = Rejected | Response nat "'d option"

definition response_ok :: "nat \<Rightarrow> bool" where
  "response_ok status = (200 \<le> status \<and> status \<le> 299)"

record 'd platform =
  fetch :: "nat \<Rightarrow> jsstring \<Rightarrow> 'd fetch_result"
  replaceStateThrows :: bool
  JSON_stringify :: "'d \<Rightarrow> jsstring"

record 'd page_state =
  edition :: "jsstring option"
  versionHash :: "jsstring option"
  cvData :: "'d option"
  error :: "jsstring option"
  pathname :: jsstring
  requests :: "jsstring list"

text \<open>
  The body of \<open>load\<close>. Every \<open>throw\<close> inside the \<open>try\<close> and every rejected
  \<open>await\<close> ends in the \<open>catch\<close>, which sets the error message.
\<close>

definition fileForEdition :: "jsstring option \<Rightarrow> jsstring" where
  "fileForEdition ed =
     (if truthy ed then js ''/cv-data-'' @ the ed @ js ''.json'' else js ''/cv-data.json'')"

definition doFetch :: "'d platform \<Rightarrow> jsstring \<Rightarrow> 'd page_state \<Rightarrow> 'd fetch_result \<times> 'd page_state" where
  "doFetch pf url st = (fetch pf (length (requests st)) url, st\<lparr>requests := requests st @ [url]\<rparr>)"

definition catchHandler :: "'d page_state \<Rightarrow> 'd page_state" where
  "catchHandler st = st\<lparr>error := Some (js ''Failed to load CV data.'')\<rparr>"

definition replaceState :: "'d platform \<Rightarrow> jsstring option \<Rightarrow> 'd page_state \<Rightarrow> 'd page_state" where
  "replaceState pf provided st =
     (if replaceStateThrows pf then st
      else st\<lparr>pathname := js ''/'' @ (if truthy provided then js ''v/'' @ the provided else [])\<rparr>)"

definition useResponse :: "'d platform \<Rightarrow> 'd option \<Rightarrow> 'd page_state \<Rightarrow> 'd page_state" where
  "useResponse pf body st =
     (case body of
        None \<Rightarrow> catchHandler st
      | Some data \<Rightarrow>
          st\<lparr>cvData := Some data,
             versionHash := Some (computeVersionHash (JSON_stringify pf) data)\<rparr>)"

definition load :: "'d platform \<Rightarrow> jsstring option \<Rightarrow> 'd page_state \<Rightarrow> 'd page_state" where
  "load pf provided st =
     (case doFetch pf (fileForEdition (edition st)) st of
        (Rejected, st1) \<Rightarrow> catchHandler st1
      | (Response status body, st1) \<Rightarrow>
          if \<not> response_ok status then
            (if truthy (edition st) then
               (case doFetch pf (js ''/cv-data.json'') st1 of
                  (Rejected, st2) \<Rightarrow> catchHandler st2
                | (Response status2 body2, st2) \<Rightarrow>
                    if \<not> response_ok status2 then catchHandler st2
                    else useResponse pf body2 (replaceState pf provided (st2\<lparr>edition := None\<rparr>)))
             else catchHandler st1)
          else useResponse pf body st1)"

text \<open>
  \<open>useEffect(() => { load() }, [edition])\<close>: \<open>load\<close> runs after the first render
  and again when \<open>edition\<close> has changed. Only a successful fallback changes it (to
  \<open>null\<close>), and a load with no edition leaves it alone (\<open>load_no_edition\<close>), so
  at most two loads run. The second starts while the first still awaits
  \<open>response.json()\<close>; the model runs them one after the other. Both loads only ever
  set \<open>error\<close>, never clear it, and only the first sets \<open>edition\<close>.
\<close>

definition loadEffect :: "'d platform \<Rightarrow> jsstring option \<Rightarrow> 'd page_state \<Rightarrow> 'd page_state" where
  "loadEffect pf provided st =
     (let st1 = load pf provided st
      in if edition st1 \<noteq> edition st then load pf provided st1 else st1)"

definition initialState :: "jsstring \<Rightarrow> jsstring option \<Rightarrow> 'd page_state" where
  "initialState path ed =
     \<lparr>edition = ed, versionHash = None, cvData = None, error = None, pathname = path, requests = []\<rparr>"

definition showsLoadError :: "'d page_state \<Rightarrow> bool" where
  "showsLoadError st = truthy (error st)"

lemmas load_eval = load_def loadEffect_def doFetch_def catchHandler_def replaceState_def useResponse_def
  fileForEdition_def response_ok_def initialState_def showsLoadError_def


text \<open>The outcomes of a fetch that the claims speak of.\<close>

definition nonSuccess :: "'d fetch_result \<Rightarrow> bool" where
  "nonSuccess r = (case r of Rejected \<Rightarrow> False | Response status body \<Rightarrow> \<not> response_ok status)"

definition fetchSucceeds :: "'d fetch_result \<Rightarrow> bool" where
  "fetchSucceeds r = (case r of Rejected \<Rightarrow> False | Response status body \<Rightarrow> response_ok status)"

definition fetchFails :: "'d fetch_result \<Rightarrow> bool" where
  "fetchFails r = (case r of Rejected \<Rightarrow> True | Response status body \<Rightarrow> \<not> response_ok status)"

definition delivers :: "'d fetch_result \<Rightarrow> bool" where
  "delivers r =
     (case r of Rejected \<Rightarrow> False | Response status body \<Rightarrow> response_ok status \<and> body \<noteq> None)"

definition rewrittenPath :: "jsstring option \<Rightarrow> jsstring" where
  "rewrittenPath provided = (case provided of None \<Rightarrow> js ''/'' | Some v \<Rightarrow> js ''/v/'' @ v)"

lemmas outcome_defs = nonSuccess_def fetchSucceeds_def fetchFails_def delivers_def

lemma load_edition_cases:
  "edition (load pf provided st) = edition st \<or> edition (load pf provided st) = None"
  by (auto simp add: load_eval split: fetch_result.splits option.splits prod.splits)

lemma load_no_edition: "\<not> truthy (edition st) \<Longrightarrow> edition (load pf provided st) = edition st"
  by (auto simp add: load_eval split: fetch_result.splits option.splits prod.splits)

lemma load_rejected:
  assumes "fetch pf (length (requests st)) (fileForEdition (edition st)) = Rejected"
  shows "load pf provided st =
     st\<lparr>error := Some (js ''Failed to load CV data.''),
        requests := requests st @ [fileForEdition (edition st)]\<rparr>"
  using assms by (simp add: load_def doFetch_def catchHandler_def)

lemma load_fallback_ok:
  assumes "truthy (edition st)"
    and "fetch pf (length (requests st)) (fileForEdition (edition st)) = Response s1 b1"
    and "\<not> response_ok s1"
    and "fetch pf (Suc (length (requests st))) (js ''/cv-data.json'') = Response s2 b2"
    and "response_ok s2"
  shows "load pf provided st =
     useResponse pf b2 (replaceState pf provided
       (st\<lparr>requests := requests st @ [fileForEdition (edition st), js ''/cv-data.json''],
           edition := None\<rparr>))"
  using assms by (simp add: load_def doFetch_def)

lemma load_fallback_fails:
  assumes "truthy (edition st)"
    and "nonSuccess (fetch pf (length (requests st)) (fileForEdition (edition st)))"
    and "fetchFails (fetch pf (Suc (length (requests st))) (js ''/cv-data.json''))"
  shows "load pf provided st =
     st\<lparr>error := Some (js ''Failed to load CV data.''),
        requests := requests st @ [fileForEdition (edition st), js ''/cv-data.json'']\<rparr>"
  using assms
  by (auto simp add: load_def doFetch_def catchHandler_def outcome_defs split: fetch_result.splits)

lemma load_default_fails:
  assumes "\<not> truthy (edition st)"
    and "fetchFails (fetch pf (length (requests st)) (js ''/cv-data.json''))"
  shows "load pf provided st =
     st\<lparr>error := Some (js ''Failed to load CV data.''),
        requests := requests st @ [js ''/cv-data.json'']\<rparr>"
  using assms
  by (auto simp add: load_def doFetch_def catchHandler_def fileForEdition_def outcome_defs
      split: fetch_result.splits)

lemma load_default_delivers:
  assumes "\<not> truthy (edition st)"
    and "fetch pf (length (requests st)) (js ''/cv-data.json'') = Response s (Some d)"
    and "response_ok s"
  shows "load pf provided st =
     st\<lparr>requests := requests st @ [js ''/cv-data.json''], cvData := Some d,
        versionHash := Some (computeVersionHash (JSON_stringify pf) d)\<rparr>"
  using assms
  by (simp add: load_def doFetch_def fileForEdition_def useResponse_def)


lemma initial_simps:
  "edition (initialState path ed) = ed" "requests (initialState path ed) = []"
  "error (initialState path ed) = None" "pathname (initialState path ed) = path"
  "cvData (initialState path ed) = None" "versionHash (initialState path ed) = None"
  by (simp_all add: initialState_def)

definition server :: "(nat \<Rightarrow> jsstring \<Rightarrow> jsstring fetch_result) \<Rightarrow> bool \<Rightarrow> jsstring platform" where
  "server f throws = \<lparr>fetch = f, replaceStateThrows = throws, JSON_stringify = (\<lambda>d. d)\<rparr>"

text \<open>
  C4, as the claim states it, fails in three ways. In each, the fetch of the edition's
  resource returns 404 and the fetch of the default resource that follows returns 200.
  (1) The body of the default resource is not JSON: a load error is shown.
  (2) The change of edition re-runs the effect, and this third request fails: a load
  error is shown. (3) \<open>replaceState\<close> throws: the path is not rewritten.
\<close>

theorem load_fallback_counterexample:
  "(let pf = server (\<lambda>n url. if url = js ''/cv-data.json'' then Response 200 None else Response 404 None) False;
        st = loadEffect pf (Some (js ''AB12CD'')) (initialState (js ''/e/acme/v/AB12CD'') (Some (js ''acme'')))
    in nonSuccess (fetch pf 0 (js ''/cv-data-acme.json'')) \<and>
       fetchSucceeds (fetch pf 1 (js ''/cv-data.json'')) \<and>
       showsLoadError st) \<and>
   (let pf = server (\<lambda>n url. if n = 1 then Response 200 (Some (js ''{}'')) else Response 404 None) False;
        st = loadEffect pf (Some (js ''AB12CD'')) (initialState (js ''/e/acme/v/AB12CD'') (Some (js ''acme'')))
    in nonSuccess (fetch pf 0 (js ''/cv-data-acme.json'')) \<and>
       delivers (fetch pf 1 (js ''/cv-data.json'')) \<and>
       requests st = [js ''/cv-data-acme.json'', js ''/cv-data.json'', js ''/cv-data.json''] \<and>
       showsLoadError st) \<and>
   (let pf = server (\<lambda>n url. if url = js ''/cv-data.json'' then Response 200 (Some (js ''{}'')) else Response 404 None) True;
        st = loadEffect pf (Some (js ''AB12CD'')) (initialState (js ''/e/acme/v/AB12CD'') (Some (js ''acme'')))
    in nonSuccess (fetch pf 0 (js ''/cv-data-acme.json'')) \<and>
       delivers (fetch pf 1 (js ''/cv-data.json'')) \<and>
       edition st = None \<and> \<not> showsLoadError st \<and>
       pathname st = js ''/e/acme/v/AB12CD'')"
  by (simp add: server_def load_eval outcome_defs js_def codeUnit_def Let_def)


text \<open>
  C4, amended. If the fetch of a requested edition's resource returns a non-success
  status, and the fetch of the default resource returns a success status and a JSON body,
  and so does the re-fetch of the default resource that the change of edition triggers,
  then the edition ends \<open>null\<close>, no load error is shown, and the path is
  \<open>/\<close> or \<open>/v/\<close> with the provided version, unless \<open>replaceState\<close> threw,
  which leaves the path as it was. If the fallback fetch fails (rejects or returns a
  non-success status), or the fetch fails when no edition was requested, a load error is
  shown, the edition is unchanged and no further request is made.
\<close>

theorem load_fallback_and_failures:
  "(truthy ed \<and> provided \<noteq> Some [] \<and>
    nonSuccess (fetch pf 0 (fileForEdition ed)) \<and>
    delivers (fetch pf 1 (js ''/cv-data.json'')) \<and>
    delivers (fetch pf 2 (js ''/cv-data.json'')) \<longrightarrow>
      (let st = loadEffect pf provided (initialState path ed)
       in edition st = None \<and> \<not> showsLoadError st \<and>
          pathname st = (if replaceStateThrows pf then path else rewrittenPath provided) \<and>
          requests st = [fileForEdition ed, js ''/cv-data.json'', js ''/cv-data.json''])) \<and>
   (truthy ed \<and>
    nonSuccess (fetch pf 0 (fileForEdition ed)) \<and>
    fetchFails (fetch pf 1 (js ''/cv-data.json'')) \<longrightarrow>
      (let st = loadEffect pf provided (initialState path ed)
       in showsLoadError st \<and> edition st = ed \<and>
          requests st = [fileForEdition ed, js ''/cv-data.json''])) \<and>
   (\<not> truthy ed \<and> fetchFails (fetch pf 0 (js ''/cv-data.json'')) \<longrightarrow>
      (let st = loadEffect pf provided (initialState path ed)
       in showsLoadError st \<and> edition st = ed \<and> requests st = [js ''/cv-data.json'']))"
proof (intro conjI impI)
  let ?st0 = "initialState path ed :: 'a page_state"
  let ?default = "js ''/cv-data.json''"
  assume h: "truthy ed \<and> provided \<noteq> Some [] \<and> nonSuccess (fetch pf 0 (fileForEdition ed)) \<and>
    delivers (fetch pf 1 ?default) \<and> delivers (fetch pf 2 ?default)"
  then obtain s1 b1 s2 d2 s3 d3 where r:
    "fetch pf 0 (fileForEdition ed) = Response s1 b1" "\<not> response_ok s1"
    "fetch pf 1 ?default = Response s2 (Some d2)" "response_ok s2"
    "fetch pf 2 ?default = Response s3 (Some d3)" "response_ok s3"
    by (auto simp add: outcome_defs split: fetch_result.splits)
  define st1 where "st1 = load pf provided ?st0"
  have st1: "st1 = useResponse pf (Some d2) (replaceState pf provided
       (?st0\<lparr>requests := [fileForEdition ed, ?default], edition := None\<rparr>))"
    unfolding st1_def using h r load_fallback_ok [of ?st0 pf s1 b1 s2 "Some d2" provided]
    by (simp add: initial_simps)
  have e1: "edition st1 = None" "requests st1 = [fileForEdition ed, ?default]" "error st1 = None"
    "pathname st1 = (if replaceStateThrows pf then path else rewrittenPath provided)"
    using h by (cases provided; simp add: st1 useResponse_def replaceState_def initial_simps rewrittenPath_def js_def)+
  have changed: "edition st1 \<noteq> edition ?st0" using h e1 by (auto simp add: initial_simps)
  have "load pf provided st1 =
     st1\<lparr>requests := requests st1 @ [?default], cvData := Some d3,
        versionHash := Some (computeVersionHash (JSON_stringify pf) d3)\<rparr>"
    using load_default_delivers [of st1 pf s3 d3 provided] e1 r by (simp add: numeral_2_eq_2)
  then have "loadEffect pf provided ?st0 =
     st1\<lparr>requests := requests st1 @ [?default], cvData := Some d3,
        versionHash := Some (computeVersionHash (JSON_stringify pf) d3)\<rparr>"
    using changed by (simp add: loadEffect_def st1_def Let_def)
  then show "let st = loadEffect pf provided ?st0
       in edition st = None \<and> \<not> showsLoadError st \<and>
          pathname st = (if replaceStateThrows pf then path else rewrittenPath provided) \<and>
          requests st = [fileForEdition ed, ?default, ?default]"
    using e1 by (simp add: showsLoadError_def Let_def)
next
  let ?st0 = "initialState path ed :: 'a page_state"
  let ?default = "js ''/cv-data.json''"
  assume h: "truthy ed \<and> nonSuccess (fetch pf 0 (fileForEdition ed)) \<and> fetchFails (fetch pf 1 ?default)"
  then have "load pf provided ?st0 =
     ?st0\<lparr>error := Some (js ''Failed to load CV data.''),
        requests := [fileForEdition ed, ?default]\<rparr>"
    using load_fallback_fails [of ?st0 pf provided] by (simp add: initial_simps)
  then show "let st = loadEffect pf provided ?st0
       in showsLoadError st \<and> edition st = ed \<and> requests st = [fileForEdition ed, ?default]"
    by (simp add: loadEffect_def Let_def showsLoadError_def initial_simps js_def)
next
  let ?st0 = "initialState path ed :: 'a page_state"
  let ?default = "js ''/cv-data.json''"
  assume h: "\<not> truthy ed \<and> fetchFails (fetch pf 0 ?default)"
  then have "load pf provided ?st0 =
     ?st0\<lparr>error := Some (js ''Failed to load CV data.''), requests := [?default]\<rparr>"
    using load_default_fails [of ?st0 pf provided] by (simp add: initial_simps)
  then show "let st = loadEffect pf provided ?st0
       in showsLoadError st \<and> edition st = ed \<and> requests st = [?default]"
    by (simp add: loadEffect_def Let_def showsLoadError_def initial_simps js_def)
qed

theorem load_fallback_and_failures_witness:
  "(let pf = server (\<lambda>n url. if url = js ''/cv-data.json'' then Response 200 (Some (js ''{}''))
                               else Response 404 None) False;
        st = loadEffect pf (Some (js ''AB12CD'')) (initialState (js ''/e/acme/v/AB12CD'') (Some (js ''acme'')))
    in edition st = None \<and> \<not> showsLoadError st \<and> pathname st = js ''/v/AB12CD'' \<and>
       requests st = [js ''/cv-data-acme.json'', js ''/cv-data.json'', js ''/cv-data.json'']) \<and>
   (let pf = server (\<lambda>n url. Response 404 None) False;
        st = loadEffect pf (Some (js ''AB12CD'')) (initialState (js ''/e/acme/v/AB12CD'') (Some (js ''acme'')))
    in showsLoadError st \<and> edition st = Some (js ''acme'') \<and>
       requests st = [js ''/cv-data-acme.json'', js ''/cv-data.json'']) \<and>
   (let pf = server (\<lambda>n url. Rejected) False;
        st = loadEffect pf None (initialState (js ''/'') None)
    in showsLoadError st \<and> edition st = None \<and> requests st = [js ''/cv-data.json''])"
  using
    load_fallback_and_failures
      [of "Some (js ''acme'')" "Some (js ''AB12CD'')"
          "server (\<lambda>n url. if url = js ''/cv-data.json'' then Response 200 (Some (js ''{}''))
                              else Response 404 None) False"
          "js ''/e/acme/v/AB12CD''"]
    load_fallback_and_failures
      [of "Some (js ''acme'')" "Some (js ''AB12CD'')" "server (\<lambda>n url. Response 404 None) False"
          "js ''/e/acme/v/AB12CD''"]
    load_fallback_and_failures
      [of None None "server (\<lambda>n url. Rejected) False" "js ''/''"]
  by (simp add: server_def outcome_defs response_ok_def fileForEdition_def rewrittenPath_def
      js_def codeUnit_def Let_def)

text \<open>
  C10. If the fetch of the edition's resource rejects, the loader makes no second
  request: the only request is the edition's resource, the load error is shown and the
  edition state is unchanged.
\<close>

theorem edition_fetch_throws_no_fallback:
  assumes "truthy ed" and "fetch pf 0 (fileForEdition ed) = Rejected"
  shows "let st = loadEffect pf provided (initialState path ed)
         in requests st = [fileForEdition ed] \<and> showsLoadError st \<and> edition st = ed \<and>
            cvData st = None \<and> versionHash st = None \<and> pathname st = path"
proof -
  have "load pf provided (initialState path ed) =
     (initialState path ed)\<lparr>error := Some (js ''Failed to load CV data.''),
        requests := [fileForEdition ed]\<rparr>"
    using load_rejected [of pf "initialState path ed" provided] assms(2)
    by (simp add: initial_simps)
  then show ?thesis
    by (simp add: loadEffect_def Let_def showsLoadError_def initial_simps js_def)
qed


theorem edition_fetch_throws_no_fallback_witness:
  "(let pf = \<lparr>fetch = (\<lambda>n url. Rejected), replaceStateThrows = False, JSON_stringify = (\<lambda>d. d)\<rparr>;
        st = loadEffect pf None (initialState (js ''/e/acme'') (Some (js ''acme'')))
    in requests st = [js ''/cv-data-acme.json''] \<and> showsLoadError st \<and>
       edition st = Some (js ''acme'') \<and> cvData st = None)"
  using edition_fetch_throws_no_fallback
    [of "Some (js ''acme'')"
        "\<lparr>fetch = (\<lambda>n url. Rejected), replaceStateThrows = False, JSON_stringify = (\<lambda>d. d)\<rparr>"
        None "js ''/e/acme''"]
  by (simp add: fileForEdition_def js_def Let_def)


section \<open>The numbers of the paginator\<close>

text \<open>
  The paginator divides and multiplies, so its numbers are doubles. A finite double is a
  rational number, and each arithmetic operation of the program returns the exact
  result rounded to the nearest double, ties to the even significand (IEEE 754
  binary64). \<open>fl\<close> is that rounding, with a significand of 53 bits; the exponent
  is not bounded, so the model is the program's arithmetic as long as no result
  overflows or is subnormal, which pixel counts, their quotients and their products
  with one- to three-digit constants never are.
\<close>

text \<open>
  \<open>ilog2 x\<close> is the integer part of the binary logarithm of a positive \<open>x\<close>
  (lemmas \<open>ilog2_bounds\<close>, \<open>ilog2_unique\<close>): the bit lengths of numerator and
  denominator give it up to one. \<open>roundTiesToEven\<close> is the nearest integer, the even
  one of two equally near. \<open>fl x\<close> scales \<open>x\<close> so that its integer part has 53
  bits, rounds, and scales back.
\<close>

definition ilog2 :: "rat \<Rightarrow> int" where
  "ilog2 x =
     (case quotient_of x of
        (a, b) \<Rightarrow> let k = bitlen a - bitlen b in if 2 powi k \<le> x then k else k - 1)"

definition roundTiesToEven :: "rat \<Rightarrow> int" where
  "roundTiesToEven y =
     (let f = \<lfloor>y\<rfloor>; d = y - of_int f
      in if d < 1 / 2 then f else if 1 / 2 < d then f + 1 else if even f then f else f + 1)"

definition fl :: "rat \<Rightarrow> rat" where
  "fl x =
     (if x = 0 then 0
      else let e = ilog2 \<bar>x\<bar> - 52 in of_int (roundTiesToEven (x / 2 powi e)) * 2 powi e)"

text \<open>
  The nearest integer to \<open>a / b\<close>, ties to even, on integers: what
  \<open>roundTiesToEven\<close> gives on a fraction (lemma \<open>roundTiesToEven_frac\<close>).
\<close>

definition roundDiv :: "int \<Rightarrow> int \<Rightarrow> int" where
  "roundDiv a b =
     (let f = a div b; r = a mod b
      in if 2 * r < b then f else if b < 2 * r then f + 1 else if even f then f else f + 1)"

section \<open>The paginator (the page loop of \<open>handleDownloadPdf\<close>)\<close>

text \<open>
  From the canvas that \<open>html2canvas\<close> returns (\<open>imgWidthPx\<close>,
  \<open>imgHeightPx\<close>): the conversion factors, the page count and, for each page, the
  source rectangle of the slice: its top \<open>sy\<close> and its height \<open>sHeight\<close>. The
  rest of the loop body hands the slice to the canvas and to jsPDF.
  \<open>totalPages\<close> is \<open>None\<close> when the per-page height is 0 (a canvas of width 0):
  the quotient is \<open>Infinity\<close> or \<open>NaN\<close> then.
\<close>

definition PAGE_HEIGHT_MM :: rat where "PAGE_HEIGHT_MM = 297"
definition PAGE_MARGIN_MM :: rat where "PAGE_MARGIN_MM = 15"
definition PRINTABLE_WIDTH_MM :: rat where "PRINTABLE_WIDTH_MM = 180"

definition printableHeightMm :: rat where
  "printableHeightMm = fl (PAGE_HEIGHT_MM - fl (PAGE_MARGIN_MM * 2))"

definition pxPerMm :: "nat \<Rightarrow> rat" where
  "pxPerMm imgWidthPx = fl (of_nat imgWidthPx / PRINTABLE_WIDTH_MM)"

definition pageHeightPx :: "nat \<Rightarrow> rat" where
  "pageHeightPx imgWidthPx = fl (printableHeightMm * pxPerMm imgWidthPx)"

definition totalPages :: "nat \<Rightarrow> nat \<Rightarrow> int option" where
  "totalPages imgWidthPx imgHeightPx =
     (if pageHeightPx imgWidthPx = 0 then None
      else Some \<lceil>fl (of_nat imgHeightPx / pageHeightPx imgWidthPx)\<rceil>)"

definition sy :: "nat \<Rightarrow> nat \<Rightarrow> int" where
  "sy imgWidthPx page = \<lfloor>fl (of_nat page * pageHeightPx imgWidthPx)\<rfloor>"

definition sHeight :: "nat \<Rightarrow> nat \<Rightarrow> nat \<Rightarrow> rat" where
  "sHeight imgWidthPx imgHeightPx page =
     min (pageHeightPx imgWidthPx) (fl (of_nat imgHeightPx - of_int (sy imgWidthPx page)))"

definition pageSlices :: "nat \<Rightarrow> nat \<Rightarrow> (int \<times> rat) list option" where
  "pageSlices imgWidthPx imgHeightPx =
     (case totalPages imgWidthPx imgHeightPx of
        None \<Rightarrow> None
      | Some n \<Rightarrow>
          Some (map (\<lambda>page. (sy imgWidthPx page, sHeight imgWidthPx imgHeightPx page))
                  [0..<nat n]))"










section \<open>The export (\<open>handleDownloadPdf\<close>)\<close>

text \<open>
  The document is modelled by the ids of the elements attached under \<open>head\<close> and
  under \<open>body\<close>, in document order. The platform decides whether the profile image
  ever settles, what \<open>html2canvas\<close> returns (it may reject), and whether a call of
  the canvas or of jsPDF in the \<open>try\<close> block throws. A canvas of width 0 and positive
  height makes \<open>drawImage\<close> throw on the first page (its source has no pixels); one of
  width 0 and height 0 has no page.
\<close>

datatype raster = RasterRejects | Canvas nat nat

record export_env =
  imageSettles :: bool
  html2canvas :: raster
  jsPDFThrows :: bool

datatype export_outcome = NoContent | ImagePending | Saved | Alerted | FinallyThrew

record export_state =
  headIds :: "jsstring list"
  bodyIds :: "jsstring list"
  isDownloading :: bool
  alerts :: nat
  saved :: "(int \<times> rat) list list"

text \<open>
  \<open>getElementById\<close> finds the first element with the id, in document order.
  \<open>removeLast\<close> removes the clone: it was appended last to \<open>body\<close>.
\<close>

definition getElementById :: "export_state \<Rightarrow> jsstring \<Rightarrow> bool" where
  "getElementById st i = (i \<in> set (headIds st @ bodyIds st))"

definition removeLast :: "'a \<Rightarrow> 'a list \<Rightarrow> 'a list" where
  "removeLast x xs = rev (remove1 x (rev xs))"

definition catchBlock :: "export_state \<Rightarrow> export_outcome \<times> export_state" where
  "catchBlock st = (Alerted, st\<lparr>alerts := alerts st + 1\<rparr>)"

definition savePdf :: "(int \<times> rat) list \<Rightarrow> export_env \<Rightarrow> export_state \<Rightarrow> export_outcome \<times> export_state" where
  "savePdf slices env st =
     (if jsPDFThrows env then catchBlock st else (Saved, st\<lparr>saved := saved st @ [slices]\<rparr>))"

definition tryBlock :: "export_env \<Rightarrow> export_state \<Rightarrow> export_outcome \<times> export_state" where
  "tryBlock env st =
     (case html2canvas env of
        RasterRejects \<Rightarrow> catchBlock st
      | Canvas imgWidthPx imgHeightPx \<Rightarrow>
          (case pageSlices imgWidthPx imgHeightPx of
             Some slices \<Rightarrow> savePdf slices env st
           | None \<Rightarrow> if imgHeightPx = 0 then savePdf [] env st else catchBlock st))"

text \<open>
  The \<open>finally\<close> block. \<open>document.head.removeChild\<close> throws when the element
  found is not a child of \<open>head\<close>; the rest of the block is skipped then.
\<close>

definition finallyBlock :: "export_outcome \<Rightarrow> export_state \<Rightarrow> export_outcome \<times> export_state" where
  "finallyBlock outcome st =
     (if js ''temp-pdf-styles'' \<in> set (headIds st) then
        (outcome,
         st\<lparr>headIds := remove1 (js ''temp-pdf-styles'') (headIds st),
            bodyIds := removeLast (js ''cv-pdf-clone'') (bodyIds st),
            isDownloading := False\<rparr>)
      else if js ''temp-pdf-styles'' \<in> set (bodyIds st) then (FinallyThrew, st)
      else
        (outcome,
         st\<lparr>bodyIds := removeLast (js ''cv-pdf-clone'') (bodyIds st), isDownloading := False\<rparr>))"

definition handleDownloadPdf :: "export_env \<Rightarrow> export_state \<Rightarrow> export_outcome \<times> export_state" where
  "handleDownloadPdf env st =
     (if \<not> getElementById st (js ''cv-content'') then (NoContent, st)
      else if \<not> imageSettles env then (ImagePending, st)
      else
        (let st1 = st\<lparr>isDownloading := True\<rparr>;
             st2 = st1\<lparr>bodyIds := bodyIds st1 @ [js ''cv-pdf-clone'']\<rparr>;
             st3 = st2\<lparr>headIds := headIds st2 @ [js ''temp-pdf-styles'']\<rparr>
         in case tryBlock env st3 of (outcome, st4) \<Rightarrow> finallyBlock outcome st4))"

text \<open>
  No element of the export is attached and no export is in progress.
\<close>

definition exportClean :: "export_state \<Rightarrow> bool" where
  "exportClean st \<longleftrightarrow>
     \<not> getElementById st (js ''cv-pdf-clone'') \<and> \<not> getElementById st (js ''temp-pdf-styles'') \<and>
     \<not> isDownloading st"


section \<open>Properties of the rounding\<close>

lemma bitlen_powi:
  assumes "0 < a"
  shows "(2::rat) powi (bitlen a - 1) \<le> of_int a" and "of_int a < (2::rat) powi bitlen a"
proof -
  from assms have pos: "1 \<le> bitlen a" by (auto simp: bitlen_alt_def)
  have b: "2 ^ nat (bitlen a - 1) \<le> a" "a < 2 ^ nat (bitlen a)"
    using bitlen_bounds [OF assms] by simp_all
  have "(2::rat) powi (bitlen a - 1) = of_int (2 ^ nat (bitlen a - 1))"
    using pos by (simp add: power_int_def)
  also have "\<dots> \<le> of_int a" using b(1) by (simp only: of_int_le_iff)
  finally show "(2::rat) powi (bitlen a - 1) \<le> of_int a" .
  have "(of_int a :: rat) < of_int (2 ^ nat (bitlen a))" using b(2) by (simp only: of_int_less_iff)
  also have "\<dots> = 2 powi bitlen a" using pos by (simp add: power_int_def)
  finally show "of_int a < (2::rat) powi bitlen a" .
qed

lemma ilog2_bounds:
  assumes "0 < x"
  shows "2 powi ilog2 x \<le> x" and "x < 2 powi (ilog2 x + 1)"
proof -
  obtain a b where q: "quotient_of x = (a, b)" by (cases "quotient_of x")
  then have b: "0 < b" and x: "x = of_int a / of_int b"
    using quotient_of_denom_pos quotient_of_div by blast+
  with assms have a: "0 < a" by (simp add: zero_less_divide_iff)
  define k where "k = bitlen a - bitlen b"
  have lo: "2 powi (k - 1) \<le> x"
  proof -
    have "(2::rat) powi (k - 1) = 2 powi (bitlen a - 1) / 2 powi bitlen b"
      by (simp add: k_def power_int_diff)
    also have "\<dots> \<le> of_int a / 2 powi bitlen b"
      using bitlen_powi(1) [OF a] by (simp add: divide_right_mono)
    also have "\<dots> \<le> of_int a / of_int b"
      using bitlen_powi(2) [OF b] a b by (simp add: frac_le)
    finally show ?thesis by (simp add: x)
  qed
  have hi: "x < 2 powi (k + 1)"
  proof -
    have "x = of_int a / of_int b" by (rule x)
    also have "\<dots> < 2 powi bitlen a / of_int b"
      using bitlen_powi(2) [OF a] b by (simp add: divide_strict_right_mono)
    also have "\<dots> \<le> 2 powi bitlen a / 2 powi (bitlen b - 1)"
      using bitlen_powi(1) [OF b] by (simp add: frac_le)
    also have "\<dots> = 2 powi (bitlen a - (bitlen b - 1))"
      by (rule power_int_diff [symmetric]) simp
    also have "bitlen a - (bitlen b - 1) = k + 1" by (simp add: k_def)
    finally show ?thesis .
  qed
  have il: "ilog2 x = (if 2 powi k \<le> x then k else k - 1)"
    by (simp add: ilog2_def q k_def Let_def)
  show "2 powi ilog2 x \<le> x" using lo by (simp add: il)
  show "x < 2 powi (ilog2 x + 1)" using hi by (auto simp add: il not_le)
qed

lemma pow2_less_imp: "(2::rat) powi m < 2 powi n \<Longrightarrow> m < n"
  using power_int_increasing [of n m "2::rat"] by (cases "m < n") auto

lemma ilog2_unique:
  assumes "2 powi k \<le> x" and "x < 2 powi (k + 1)"
  shows "ilog2 x = k"
proof -
  have "(0::rat) < 2 powi k" by simp
  then have pos: "0 < x" using assms(1) by (rule less_le_trans)
  note b = ilog2_bounds [OF pos]
  have "2 powi ilog2 x < (2::rat) powi (k + 1)" using b(1) assms(2) by simp
  then have "ilog2 x < k + 1" by (rule pow2_less_imp)
  moreover have "2 powi k < (2::rat) powi (ilog2 x + 1)" using b(2) assms(1) by simp
  then have "k < ilog2 x + 1" by (rule pow2_less_imp)
  ultimately show ?thesis by simp
qed


lemma roundTiesToEven_int: "roundTiesToEven (of_int z) = z"
  by (simp add: roundTiesToEven_def)

lemma roundTiesToEven_error: "\<bar>of_int (roundTiesToEven y) - y\<bar> \<le> 1 / 2"
proof -
  have "of_int \<lfloor>y\<rfloor> \<le> y" "y < of_int \<lfloor>y\<rfloor> + 1" by linarith+
  then show ?thesis
    by (auto simp add: roundTiesToEven_def Let_def)
qed

lemma fl_error:
  assumes "0 < x"
  shows "\<bar>fl x - x\<bar> \<le> x / 2 ^ 53"
proof -
  define e where "e = ilog2 x - 52"
  have fl: "fl x = of_int (roundTiesToEven (x / 2 powi e)) * 2 powi e"
    using assms by (simp add: fl_def e_def Let_def)
  have "fl x - x = (of_int (roundTiesToEven (x / 2 powi e)) - x / 2 powi e) * 2 powi e"
    by (simp add: fl field_simps)
  then have "\<bar>fl x - x\<bar> = \<bar>of_int (roundTiesToEven (x / 2 powi e)) - x / 2 powi e\<bar> * 2 powi e"
    by (simp add: abs_mult)
  also have "\<dots> \<le> 1 / 2 * 2 powi e"
    by (intro mult_right_mono roundTiesToEven_error) simp
  also have "\<dots> = 2 powi ilog2 x / 2 ^ 53"
  proof -
    have "(2::rat) powi e = 2 powi ilog2 x / 2 powi 52"
      unfolding e_def by (rule power_int_diff) simp
    then show ?thesis by simp
  qed
  also have "\<dots> \<le> x / 2 ^ 53"
    using ilog2_bounds(1) [OF assms] by (simp add: divide_right_mono)
  finally show ?thesis .
qed

lemma fl_int:
  assumes "\<bar>z\<bar> < 2 ^ 53"
  shows "fl (of_int z) = of_int z"
proof (cases "z = 0")
  case True
  then show ?thesis by (simp add: fl_def)
next
  case False
  define e where "e = ilog2 \<bar>of_int z\<bar> - 52"
  have pos: "(0::rat) < \<bar>of_int z\<bar>" using False by simp
  have "2 powi ilog2 \<bar>of_int z\<bar> \<le> \<bar>of_int z :: rat\<bar>" using ilog2_bounds(1) [OF pos] .
  also have "\<bar>of_int z :: rat\<bar> < 2 powi 53"
  proof -
    have "(of_int \<bar>z\<bar> :: rat) < of_int (2 ^ 53)" using assms by (simp only: of_int_less_iff)
    then show ?thesis by simp
  qed
  finally have "ilog2 \<bar>of_int z\<bar> < 53" by (rule pow2_less_imp)
  then have e: "e \<le> 0" by (simp add: e_def)
  have "(of_int z :: rat) / 2 powi e = of_int z * 2 powi (- e)"
    by (simp add: power_int_minus field_simps)
  also have "\<dots> = of_int (z * 2 ^ nat (- e))"
    using e by (simp add: power_int_def)
  finally have q: "(of_int z :: rat) / 2 powi e = of_int (z * 2 ^ nat (- e))" .
  have "fl (of_int z) = of_int (roundTiesToEven (of_int z / 2 powi e)) * 2 powi e"
    using False by (simp add: fl_def e_def Let_def)
  also have "\<dots> = of_int (z * 2 ^ nat (- e)) * 2 powi e"
    by (simp only: q roundTiesToEven_int)
  also have "\<dots> = of_int z / 2 powi e * 2 powi e"
    by (simp only: q)
  also have "\<dots> = of_int z" by simp
  finally show ?thesis .
qed


lemma fl_pos: "0 < x \<Longrightarrow> 0 < fl x"
proof -
  assume x: "0 < x"
  have "x / 2 ^ 53 < x" using x by (simp add: field_simps)
  with fl_error [OF x] show ?thesis by linarith
qed

lemma roundTiesToEven_frac:
  assumes "0 < b"
  shows "roundTiesToEven (of_int a / of_int b) = roundDiv a b"
proof -
  have f: "\<lfloor>(of_int a :: rat) / of_int b\<rfloor> = a div b" by (rule floor_divide_of_int_eq)
  have "(of_int a :: rat) = of_int (a div b * b + a mod b)" by simp
  also have "\<dots> = of_int (a div b) * of_int b + of_int (a mod b)" by (simp only: of_int_add of_int_mult)
  finally have d: "(of_int a :: rat) / of_int b - of_int (a div b) = of_int (a mod b) / of_int b"
    using assms by (simp add: field_simps)
  have lt: "(of_int (a mod b) :: rat) / of_int b < 1 / 2 \<longleftrightarrow> 2 * (a mod b) < b"
  proof -
    have "(of_int (a mod b) :: rat) / of_int b < 1 / 2 \<longleftrightarrow> (of_int (2 * (a mod b)) :: rat) < of_int b"
      using assms by (simp add: field_simps)
    then show ?thesis by (simp only: of_int_less_iff)
  qed
  have gt: "1 / 2 < (of_int (a mod b) :: rat) / of_int b \<longleftrightarrow> b < 2 * (a mod b)"
  proof -
    have "1 / 2 < (of_int (a mod b) :: rat) / of_int b \<longleftrightarrow> (of_int b :: rat) < of_int (2 * (a mod b))"
      using assms by (simp add: field_simps)
    then show ?thesis by (simp only: of_int_less_iff)
  qed
  show ?thesis
    unfolding roundTiesToEven_def Let_def f d lt gt roundDiv_def by (rule refl)
qed

lemma fl_eval:
  assumes "2 powi k \<le> \<bar>x\<bar>" and "\<bar>x\<bar> < 2 powi (k + 1)"
    and "x / 2 powi (k - 52) = of_int a / of_int b" and "0 < b"
  shows "fl x = of_int (roundDiv a b) * 2 powi (k - 52)"
proof -
  have "ilog2 \<bar>x\<bar> = k" using assms(1,2) by (rule ilog2_unique)
  moreover have "x \<noteq> 0"
  proof
    assume "x = 0"
    with assms(1) have "(2::rat) powi k \<le> 0" by simp
    moreover have "(0::rat) < 2 powi k" by simp
    ultimately show False by simp
  qed
  ultimately have "fl x = of_int (roundTiesToEven (x / 2 powi (k - 52))) * 2 powi (k - 52)"
    by (simp add: fl_def Let_def)
  then show ?thesis using assms(3,4) by (simp add: roundTiesToEven_frac)
qed








section \<open>Properties of the paginator\<close>

lemma printableHeightMm_267: "printableHeightMm = 267"
proof -
  have "fl (of_int 30) = of_int 30" by (rule fl_int) simp
  moreover have "fl (of_int 267) = of_int 267" by (rule fl_int) simp
  ultimately show ?thesis
    by (simp add: printableHeightMm_def PAGE_HEIGHT_MM_def PAGE_MARGIN_MM_def)
qed

lemma pageHeightPx_pos: "0 < W \<Longrightarrow> 0 < pageHeightPx W"
  by (simp add: pageHeightPx_def pxPerMm_def printableHeightMm_267 PRINTABLE_WIDTH_MM_def fl_pos)

lemma pageSlices_Some:
  assumes "0 < W"
  shows "pageSlices W H =
     Some (map (\<lambda>page. (sy W page, sHeight W H page))
             [0..<nat \<lceil>fl (of_nat H / pageHeightPx W)\<rceil>])"
  using pageHeightPx_pos [OF assms] by (simp add: pageSlices_def totalPages_def)

subsection \<open>The canvas of the export\<close>





lemma pxPerMm_1360: "pxPerMm 1360 = 4253399648072135 / 562949953421312"
  using fl_eval [of 2 "1360 / 180" "68 * 2 ^ 50" 9]
  by (simp add: pxPerMm_def PRINTABLE_WIDTH_MM_def roundDiv_def Let_def)

lemma pageHeightPx_1360: "pageHeightPx 1360 = 8872325828400469 / 4398046511104"
  using fl_eval [of 10 "267 * (4253399648072135 / 562949953421312)" "267 * 4253399648072135" "2 ^ 7"]
  by (simp add: pageHeightPx_def pxPerMm_1360 printableHeightMm_267 roundDiv_def Let_def)


text \<open>
  No bitmap height is three times the computed per-page height, which is not a third
  of a whole number: "exactly 3 times the per-page height" can only be meant of the
  specification's per-page height, and then of the height 6052.
\<close>

lemma no_height_thrice_computed: "of_nat H \<noteq> 3 * pageHeightPx 1360"
proof
  assume "of_nat H = 3 * pageHeightPx 1360"
  then have "(of_int (int H * 4398046511104) :: rat) = of_int 26616977485201407"
    by (simp add: pageHeightPx_1360)
  then have "int H * 4398046511104 = 26616977485201407" by (simp only: of_int_eq_iff)
  moreover have "even (int H * 4398046511104)" by simp
  moreover have "odd (26616977485201407 :: int)" by simp
  ultimately show False by (simp only:)
qed

subsection \<open>The program's arithmetic against the exact one\<close>





subsection \<open>Two bitmaps\<close>







subsection \<open>Another width\<close>

text \<open>
  The agreement with the exact arithmetic is a fact of the width 1360. A canvas 20
  pixels wide would have the exact per-page height \<open>267 * 20 / 180\<close>, a third of 89;
  the computed one is slightly smaller, and a bitmap 89 pixels high would get 4 pages
  where the exact quotient is 3.
\<close>

lemma pageHeightPx_20: "pageHeightPx 20 = 4175212154541397 / 140737488355328"
proof -
  have "fl (20 / 180) = of_int (roundDiv (2 ^ 56) 9) * 2 powi (- 4 - 52)"
    by (rule fl_eval) simp_all
  then have px: "pxPerMm 20 = 2001599834386887 / 18014398509481984"
    by (simp add: pxPerMm_def PRINTABLE_WIDTH_MM_def roundDiv_def Let_def)
  have "fl (267 * (2001599834386887 / 18014398509481984))
      = of_int (roundDiv (267 * 2001599834386887) (2 ^ 6)) * 2 powi (4 - 52)"
    by (rule fl_eval) simp_all
  then show ?thesis
    by (simp add: pageHeightPx_def px printableHeightMm_267 roundDiv_def Let_def)
qed

lemma ideal_triple_height_four_pages:
  "(89 :: rat) = 3 * (267 * (20 / 180)) \<and> totalPages 20 89 = Some 4"
proof -
  have "fl (89 / (4175212154541397 / 140737488355328))
      = of_int (roundDiv (89 * 140737488355328 * 2 ^ 51) 4175212154541397) * 2 powi (1 - 52)"
    by (rule fl_eval) simp_all
  then have "fl (of_nat 89 / pageHeightPx 20) = 6755399441055745 / 2251799813685248"
    by (simp add: pageHeightPx_20 roundDiv_def Let_def)
  then have "\<lceil>fl (of_nat 89 / pageHeightPx 20)\<rceil> = 4" by (simp add: ceiling_unique)
  then show ?thesis by (simp add: totalPages_def pageHeightPx_20)
qed

subsection \<open>Page count and slices\<close>





section \<open>Properties of the export\<close>

lemma removeLast_snoc: "x \<notin> set xs \<Longrightarrow> removeLast x (xs @ [x]) = xs"
  by (simp add: removeLast_def)

lemma remove1_snoc: "x \<notin> set xs \<Longrightarrow> remove1 x (xs @ [x]) = xs"
  by (simp add: remove1_append)

lemma tryBlock_frame:
  "tryBlock env st = (outcome, st') \<Longrightarrow>
     headIds st' = headIds st \<and> bodyIds st' = bodyIds st \<and> isDownloading st' = isDownloading st \<and>
     (outcome = Saved \<or> outcome = Alerted)"
  by (auto simp add: tryBlock_def savePdf_def catchBlock_def split: raster.splits option.splits if_splits)

text \<open>
  C7. From a page with no export element attached and no export in progress, every
  invocation of the export, whatever the platform does (the image never settles,
  \<open>html2canvas\<close> rejects, a canvas or jsPDF call throws, or the file is saved),
  leaves the document as it was, so neither the clone \<open>cv-pdf-clone\<close> nor the
  style \<open>temp-pdf-styles\<close> is attached, and the downloading flag is false; the
  \<open>finally\<close> block itself does not throw.
\<close>

theorem export_cleanup:
  assumes "exportClean st"
  shows "case handleDownloadPdf env st of
           (outcome, st') \<Rightarrow>
             exportClean st' \<and> headIds st' = headIds st \<and> bodyIds st' = bodyIds st \<and>
             outcome \<noteq> FinallyThrew"
proof (cases "getElementById st (js ''cv-content'') \<and> imageSettles env")
  case False
  with assms show ?thesis by (auto simp add: handleDownloadPdf_def)
next
  case True
  define st3 where "st3 = st\<lparr>isDownloading := True, bodyIds := bodyIds st @ [js ''cv-pdf-clone''],
    headIds := headIds st @ [js ''temp-pdf-styles'']\<rparr>"
  obtain outcome st4 where t: "tryBlock env st3 = (outcome, st4)" by (cases "tryBlock env st3")
  from tryBlock_frame [OF t] have f: "headIds st4 = headIds st @ [js ''temp-pdf-styles'']"
    "bodyIds st4 = bodyIds st @ [js ''cv-pdf-clone'']" "outcome = Saved \<or> outcome = Alerted"
    by (simp_all add: st3_def)
  from assms have c: "js ''cv-pdf-clone'' \<notin> set (bodyIds st)" "js ''temp-pdf-styles'' \<notin> set (headIds st)"
    "js ''cv-pdf-clone'' \<notin> set (headIds st)" "js ''temp-pdf-styles'' \<notin> set (bodyIds st)"
    by (simp_all add: exportClean_def getElementById_def)
  have "handleDownloadPdf env st = finallyBlock outcome st4"
    using True t by (simp add: handleDownloadPdf_def st3_def Let_def)
  also have "\<dots> = (outcome, st4\<lparr>headIds := headIds st, bodyIds := bodyIds st, isDownloading := False\<rparr>)"
    using f c by (simp add: finallyBlock_def removeLast_snoc remove1_snoc)
  finally show ?thesis using f c by (auto simp add: exportClean_def getElementById_def)
qed


text \<open>A successful export and one whose rasterization rejects.\<close>

theorem export_cleanup_witness:
  "(let st = \<lparr>headIds = [], bodyIds = [js ''root'', js ''cv-content''], isDownloading = False,
              alerts = 0, saved = []\<rparr>;
        ok = handleDownloadPdf \<lparr>imageSettles = True, html2canvas = Canvas 180 801, jsPDFThrows = False\<rparr> st;
        failed = handleDownloadPdf \<lparr>imageSettles = True, html2canvas = RasterRejects, jsPDFThrows = False\<rparr> st
    in fst ok = Saved \<and> exportClean (snd ok) \<and> bodyIds (snd ok) = [js ''root'', js ''cv-content''] \<and>
       fst failed = Alerted \<and> exportClean (snd failed) \<and> alerts (snd failed) = 1)"
proof -
  define st where "st = \<lparr>headIds = [], bodyIds = [js ''root'', js ''cv-content''], isDownloading = False,
              alerts = 0, saved = ([] :: (int \<times> rat) list list)\<rparr>"
  define okEnv where "okEnv = \<lparr>imageSettles = True, html2canvas = Canvas 180 801, jsPDFThrows = False\<rparr>"
  define failEnv where "failEnv = \<lparr>imageSettles = True, html2canvas = RasterRejects, jsPDFThrows = False\<rparr>"
  have clean: "exportClean st"
    by (simp add: st_def exportClean_def getElementById_def js_def codeUnit_def)
  have content: "getElementById st (js ''cv-content'')"
    by (simp add: st_def getElementById_def)
  have ok: "fst (handleDownloadPdf okEnv st) = Saved"
    using content pageSlices_Some [of 180 801]
    by (simp add: handleDownloadPdf_def okEnv_def tryBlock_def savePdf_def finallyBlock_def Let_def)
  have failed: "fst (handleDownloadPdf failEnv st) = Alerted"
    "alerts (snd (handleDownloadPdf failEnv st)) = 1"
    using content
    by (simp_all add: handleDownloadPdf_def failEnv_def tryBlock_def catchBlock_def finallyBlock_def
        Let_def st_def)
  from export_cleanup [OF clean, of okEnv] export_cleanup [OF clean, of failEnv] ok failed
  show ?thesis
    unfolding st_def [symmetric] okEnv_def [symmetric] failEnv_def [symmetric]
    by (simp add: Let_def case_prod_unfold) (simp add: st_def)
qed

end
